theory Spec2Isabelle
  imports Main
begin

section \<open>The document writer\<close>

text \<open>
  The emission code of \<^verbatim>\<open>src/netplan.c\<close> talks to libyaml through one call,
  \<^verbatim>\<open>yaml_emitter_emit(emitter, event)\<close>, hidden in the \<^verbatim>\<open>YAML_*\<close> macros. The events
  the file produces are the eight below; a scalar carries its text and its style.
\<close>

datatype yaml_event =
    STREAM_START
  | DOCUMENT_START
  | DOCUMENT_END
  | STREAM_END
  | MAPPING_START
  | MAPPING_END
  | SCALAR_PLAIN string
  | SCALAR_QUOTED string

text \<open>
  Everything the code reads or changes outside its arguments: the emitter, the log of
  \<^verbatim>\<open>g_warning\<close>, and the open \<^verbatim>\<open>FILE\<close> streams.

  \<^item> \<open>fails\<close>: libyaml and the file system are not part of the repository; which of the
    calls of \<^verbatim>\<open>yaml_emitter_emit\<close> fail is therefore a parameter of the run: call number
    \<open>n\<close> (counted from the initialisation of the emitter) returns 0 exactly when
    \<open>fails n\<close>. The code never changes this field.
  \<^item> \<open>calls\<close>: how many times \<^verbatim>\<open>yaml_emitter_emit\<close> has been called.
  \<^item> \<open>events\<close>: the events the emitter has accepted, in order: the document.
  \<^item> \<open>emitter_live\<close>: initialised and not yet deleted.
  \<^item> \<open>emitter_output\<close>: the stream given to \<^verbatim>\<open>yaml_emitter_set_output_file\<close>.
  \<^item> \<open>warnings\<close>: the messages passed to \<^verbatim>\<open>g_warning\<close>.
  \<^item> \<open>creatable\<close>: the paths \<^verbatim>\<open>fopen(path, "wb")\<close> can open or create.
  \<^item> \<open>streams\<close>: the streams that are open, each named by its path.
  \<^item> \<open>crashed\<close>: a \<^verbatim>\<open>NULL\<close> stream was handed to libyaml and \<^verbatim>\<open>fclose\<close>, which C leaves
    undefined (libyaml asserts that the stream is not \<^verbatim>\<open>NULL\<close>).
\<close>

record world =
  fails :: "nat \<Rightarrow> bool"
  calls :: nat
  events :: "yaml_event list"
  emitter_live :: bool
  emitter_output :: "string option"
  warnings :: "string list"
  creatable :: "string \<Rightarrow> bool"
  streams :: "string list"
  crashed :: bool

text \<open>
  A piece of code that can jump to the \<^verbatim>\<open>error:\<close> label of its function: it returns the
  new world and \<open>False\<close> when the jump was taken.
\<close>

type_synonym step = "world \<Rightarrow> bool \<times> world"

definition yaml_emitter_emit :: "yaml_event \<Rightarrow> step" where
  "yaml_emitter_emit e s =
     (if fails s (calls s) then (False, s\<lparr>calls := Suc (calls s)\<rparr>)
      else (True, s\<lparr>calls := Suc (calls s), events := events s @ [e]\<rparr>))"

definition yaml_emitter_initialize :: "world \<Rightarrow> world" where
  "yaml_emitter_initialize s =
     s\<lparr>calls := 0, events := [], emitter_live := True, emitter_output := None\<rparr>"

definition yaml_emitter_set_output_file :: "string \<Rightarrow> world \<Rightarrow> world" where
  "yaml_emitter_set_output_file file s = s\<lparr>emitter_output := Some file\<rparr>"

definition yaml_emitter_delete :: "world \<Rightarrow> world" where
  "yaml_emitter_delete s = s\<lparr>emitter_live := False\<rparr>"

text \<open>
  Statements in sequence, each of which may \<^verbatim>\<open>goto error\<close>: the first one that does
  ends the sequence, and nothing after it runs.
\<close>

fun steps :: "step list \<Rightarrow> step" where
  "steps [] s = (True, s)"
| "steps (f # fs) s = (case f s of (ok, s') \<Rightarrow> if ok then steps fs s' else (False, s'))"

text \<open>A call of a \<^verbatim>\<open>void\<close> function or macro part: it cannot jump.\<close>

definition call_void :: "(world \<Rightarrow> world) \<Rightarrow> step" where
  "call_void f s = (True, f s)"

text \<open>
  A call whose \<^verbatim>\<open>gboolean\<close> result the caller drops, as in
  \<^verbatim>\<open>write_match(event, emitter, def);\<close> (line 155).
\<close>

definition discard_result :: "step \<Rightarrow> step" where
  "discard_result f s = (True, snd (f s))"

subsection \<open>The macros of the header\<close>

text \<open>
  Modelled from the spec: the macros \<^verbatim>\<open>YAML_MAPPING_OPEN\<close>, \<^verbatim>\<open>YAML_MAPPING_CLOSE\<close>,
  \<^verbatim>\<open>YAML_SCALAR_PLAIN\<close>, \<^verbatim>\<open>YAML_SCALAR_QUOTED\<close>, \<^verbatim>\<open>YAML_STRING\<close>, \<^verbatim>\<open>YAML_STRING_PLAIN\<close>,
  \<^verbatim>\<open>YAML_OUT_START\<close> and \<^verbatim>\<open>YAML_OUT_STOP\<close> are declared in \<^verbatim>\<open>parse.h\<close>, which is not
  among the sources. The spec (section 2) gives the writer the operations "open
  mapping", "close mapping", "plain scalar" and "quoted scalar", "each of which can
  fail"; the source shows that a failure is a \<^verbatim>\<open>goto error\<close> (every function that uses a
  macro has an \<^verbatim>\<open>error:\<close> label and no \<^verbatim>\<open>goto\<close> of its own for it), and that
  \<^verbatim>\<open>YAML_STRING\<close> and \<^verbatim>\<open>YAML_STRING_PLAIN\<close> write nothing for a \<^verbatim>\<open>NULL\<close> value (lines
  164 to 169 pass optional fields unguarded; the spec: "each present field").
\<close>

definition YAML_MAPPING_OPEN :: step where
  "YAML_MAPPING_OPEN = yaml_emitter_emit MAPPING_START"

definition YAML_MAPPING_CLOSE :: step where
  "YAML_MAPPING_CLOSE = yaml_emitter_emit MAPPING_END"

definition YAML_SCALAR_PLAIN :: "string \<Rightarrow> step" where
  "YAML_SCALAR_PLAIN scalar = yaml_emitter_emit (SCALAR_PLAIN scalar)"

definition YAML_SCALAR_QUOTED :: "string \<Rightarrow> step" where
  "YAML_SCALAR_QUOTED scalar = yaml_emitter_emit (SCALAR_QUOTED scalar)"

definition YAML_STRING :: "string \<Rightarrow> string option \<Rightarrow> step" where
  "YAML_STRING key value_ptr =
     (case value_ptr of
        None \<Rightarrow> steps []
      | Some v \<Rightarrow> steps [YAML_SCALAR_PLAIN key, YAML_SCALAR_QUOTED v])"

definition YAML_STRING_PLAIN :: "string \<Rightarrow> string option \<Rightarrow> step" where
  "YAML_STRING_PLAIN key value_ptr =
     (case value_ptr of
        None \<Rightarrow> steps []
      | Some v \<Rightarrow> steps [YAML_SCALAR_PLAIN key, YAML_SCALAR_PLAIN v])"

text \<open>
  Modelled from the spec: \<^verbatim>\<open>YAML_OUT_START\<close> ("opens output") initialises the emitter on
  the stream and opens the stream, the document and the root mapping (line 141 writes
  the key \<^verbatim>\<open>network\<close> right after it, so a mapping is open); \<^verbatim>\<open>YAML_OUT_STOP\<close>
  ("finalizes the output stream"; the source: "Tear down the YAML emitter") closes the
  three and deletes the emitter.
\<close>

definition YAML_OUT_START :: "string \<Rightarrow> step" where
  "YAML_OUT_START file =
     steps [call_void yaml_emitter_initialize,
            call_void (yaml_emitter_set_output_file file),
            yaml_emitter_emit STREAM_START,
            yaml_emitter_emit DOCUMENT_START,
            YAML_MAPPING_OPEN]"

definition YAML_OUT_STOP :: step where
  "YAML_OUT_STOP =
     steps [YAML_MAPPING_CLOSE,
            yaml_emitter_emit DOCUMENT_END,
            yaml_emitter_emit STREAM_END,
            call_void yaml_emitter_delete]"

section \<open>The device definition\<close>

text \<open>
  Modelled from the spec: the types of \<^verbatim>\<open>netplan.h\<close> are not among the sources. The
  device types are the closed set of section 3 of the spec; the source names
  \<^verbatim>\<open>NETPLAN_DEF_TYPE_OTHER\<close>, \<^verbatim>\<open>NETPLAN_DEF_TYPE_WIFI\<close> and \<^verbatim>\<open>NETPLAN_WIFI_MODE_OTHER\<close> and
  treats every other value alike. A \<^verbatim>\<open>char*\<close> that may be \<^verbatim>\<open>NULL\<close> is a
  \<open>string option\<close>. The passthrough \<^verbatim>\<open>GData*\<close> is the list of its pairs in the order
  \<^verbatim>\<open>g_datalist_foreach\<close> visits them (\<^verbatim>\<open>NULL\<close> is the empty list: GLib frees the list
  with its last pair), the access-point hash table the list of its values in the order
  the iterator yields them.
\<close>

datatype NetplanDefType =
    NETPLAN_DEF_TYPE_ETHERNET
  | NETPLAN_DEF_TYPE_WIFI
  | NETPLAN_DEF_TYPE_MODEM
  | NETPLAN_DEF_TYPE_BRIDGE
  | NETPLAN_DEF_TYPE_BOND
  | NETPLAN_DEF_TYPE_VLAN
  | NETPLAN_DEF_TYPE_TUNNEL
  | NETPLAN_DEF_TYPE_OTHER

datatype NetplanBackend =
    NETPLAN_BACKEND_NONE
  | NETPLAN_BACKEND_NETWORKD
  | NETPLAN_BACKEND_NM
  | NETPLAN_BACKEND_OVS

datatype NetplanWifiMode =
    NETPLAN_WIFI_MODE_INFRASTRUCTURE
  | NETPLAN_WIFI_MODE_ADHOC
  | NETPLAN_WIFI_MODE_AP
  | NETPLAN_WIFI_MODE_OTHER

record NetplanNMSettings =
  name :: "string option"
  uuid :: "string option"
  passthrough :: "(string \<times> string) list"

record NetplanBackendSettings =
  nm :: NetplanNMSettings

record NetplanWifiAccessPoint =
  ssid :: string
  hidden :: bool
  mode :: NetplanWifiMode
  ap_backend_settings :: NetplanBackendSettings

record NetplanMatch =
  original_name :: "string option"

record NetplanModemParams =
  auto_config :: bool
  apn :: "string option"
  device_id :: "string option"
  network_id :: "string option"
  pin :: "string option"
  sim_id :: "string option"
  sim_operator_id :: "string option"

record NetplanNetDefinition =
  type :: NetplanDefType
  backend :: NetplanBackend
  id' :: string
  has_match :: bool
  match :: NetplanMatch
  wake_on_lan :: bool
  modem_params :: NetplanModemParams
  access_points :: "NetplanWifiAccessPoint list"
  backend_settings :: NetplanBackendSettings

text \<open>
  The lookup tables \<^verbatim>\<open>netplan_def_type_to_str\<close>, \<^verbatim>\<open>netplan_backend_to_name\<close> and
  \<^verbatim>\<open>netplan_wifi_mode_to_str\<close> are declared outside the sources as well; they are
  parameters of the model.
\<close>

record tables =
  netplan_def_type_to_str :: "NetplanDefType \<Rightarrow> string"
  netplan_backend_to_name :: "NetplanBackend \<Rightarrow> string"
  netplan_wifi_mode_to_str :: "NetplanWifiMode \<Rightarrow> string"

text \<open>The truth value of a pointer in a C condition.\<close>

fun non_null :: "'a option \<Rightarrow> bool" where
  "non_null None = False"
| "non_null (Some v) = True"

section \<open>GLib\<close>

text \<open>
  \<^verbatim>\<open>g_datalist_foreach\<close> calls the function once for each pair of the list;
  \<^verbatim>\<open>g_warning\<close> logs a message.
\<close>

fun g_datalist_foreach ::
  "(string \<times> string) list \<Rightarrow> (string \<Rightarrow> string \<Rightarrow> world \<Rightarrow> world) \<Rightarrow> world \<Rightarrow> world" where
  "g_datalist_foreach [] func s = s"
| "g_datalist_foreach ((key_id, data) # rest) func s =
     g_datalist_foreach rest func (func key_id data s)"

definition g_warning :: "string \<Rightarrow> world \<Rightarrow> world" where
  "g_warning message s = s\<lparr>warnings := warnings s @ [message]\<rparr>"

text \<open>
  \<^verbatim>\<open>g_build_path\<close> with a separator of one character, after GLib's own loop
  (\<^verbatim>\<open>g_build_path_va\<close>): empty elements are skipped; the separators at the start of the
  first element that is not empty are kept; between two elements the separators at the
  end of the one and the start of the other are replaced by a single one; the
  separators at the end of the last element are kept. \<open>last_trailing\<close> is \<open>None\<close> while
  the pointer is \<^verbatim>\<open>NULL\<close>.
\<close>

record build_path_state =
  result :: string
  is_first :: bool
  have_leading :: bool
  single_element :: "string option"
  last_trailing :: "string option"

definition g_build_path_element :: "char \<Rightarrow> string \<Rightarrow> build_path_state \<Rightarrow> build_path_state" where
  "g_build_path_element separator element st =
     (if element = [] then st
      else
        let start = dropWhile (\<lambda>c. c = separator) element;
            body = rev (dropWhile (\<lambda>c. c = separator) (rev start));
            trailing = takeWhile (\<lambda>c. c = separator) (rev element);
            st1 =
              (if have_leading st
               then st\<lparr>single_element := None, last_trailing := Some trailing\<rparr>
               else st\<lparr>single_element :=
                         (if length element - length trailing \<le> length element - length start
                          then Some element else single_element st),
                       result := result st @ takeWhile (\<lambda>c. c = separator) element,
                       have_leading := True,
                       last_trailing := Some trailing\<rparr>)
        in if body = [] then st1
           else st1\<lparr>result := result st1 @ (if is_first st1 then [] else [separator]) @ body,
                    is_first := False\<rparr>)"

fun g_build_path_loop :: "char \<Rightarrow> string list \<Rightarrow> build_path_state \<Rightarrow> build_path_state" where
  "g_build_path_loop separator [] st = st"
| "g_build_path_loop separator (element # rest) st =
     g_build_path_loop separator rest (g_build_path_element separator element st)"

definition g_build_path :: "char \<Rightarrow> string list \<Rightarrow> string" where
  "g_build_path separator elements =
     (let st = g_build_path_loop separator elements
                 \<lparr>result = [], is_first = True, have_leading = False,
                  single_element = None, last_trailing = None\<rparr>
      in case single_element st of
           Some e \<Rightarrow> e
         | None \<Rightarrow> result st @ (case last_trailing st of None \<Rightarrow> [] | Some t \<Rightarrow> t))"

definition G_DIR_SEPARATOR :: char where
  "G_DIR_SEPARATOR = CHR ''/''"

text \<open>
  \<^verbatim>\<open>fopen(path, "wb")\<close> and \<^verbatim>\<open>fclose\<close>: a stream is named by the path it was opened on.
\<close>

definition fopen :: "string \<Rightarrow> world \<Rightarrow> string option \<times> world" where
  "fopen path s =
     (if creatable s path then (Some path, s\<lparr>streams := path # streams s\<rparr>)
      else (None, s))"

definition fclose :: "string \<Rightarrow> world \<Rightarrow> world" where
  "fclose file s = s\<lparr>streams := remove1 file (streams s)\<rparr>"

section \<open>The emitters of netplan.c\<close>

text \<open>\<^verbatim>\<open>write_match\<close>, lines 24 to 33.\<close>

definition write_match :: "NetplanNetDefinition \<Rightarrow> step" where
  "write_match d =
     steps [YAML_SCALAR_PLAIN ''match'',
            YAML_MAPPING_OPEN,
            YAML_STRING ''name'' (original_name (match d)),
            YAML_MAPPING_CLOSE]"

text \<open>
  \<^verbatim>\<open>_passthrough_handler\<close>, lines 40 to 48: a \<^verbatim>\<open>void\<close> callback. A failed write jumps to
  \<^verbatim>\<open>error: return;\<close>, which only leaves the callback.
\<close>

definition passthrough_handler :: "string \<Rightarrow> string \<Rightarrow> world \<Rightarrow> world" where
  "passthrough_handler key v s =
     snd (steps [YAML_SCALAR_PLAIN key, YAML_SCALAR_QUOTED v] s)"

text \<open>\<^verbatim>\<open>write_backend_settings\<close>, lines 50 to 76.\<close>

definition write_backend_settings :: "NetplanBackendSettings \<Rightarrow> step" where
  "write_backend_settings s =
     (if non_null (uuid (nm s)) \<or> non_null (name (nm s)) \<or> passthrough (nm s) \<noteq> [] then
        steps
          ([YAML_SCALAR_PLAIN ''networkmanager'',
            YAML_MAPPING_OPEN]
           @ (case uuid (nm s) of
                Some u \<Rightarrow> [YAML_SCALAR_PLAIN ''uuid'', YAML_SCALAR_PLAIN u]
              | None \<Rightarrow> [])
           @ (case name (nm s) of
                Some n \<Rightarrow> [YAML_SCALAR_PLAIN ''name'', YAML_SCALAR_QUOTED n]
              | None \<Rightarrow> [])
           @ (if passthrough (nm s) \<noteq> [] then
                [YAML_SCALAR_PLAIN ''passthrough'',
                 YAML_MAPPING_OPEN,
                 call_void (g_datalist_foreach (passthrough (nm s)) passthrough_handler),
                 YAML_MAPPING_CLOSE]
              else [])
           @ [YAML_MAPPING_CLOSE])
      else steps [])"

text \<open>
  \<^verbatim>\<open>write_access_points\<close>, lines 78 to 110. First the message of line 100, then the body
  of the \<^verbatim>\<open>while\<close> loop (lines 88 to 105) for one access point, then the function.
\<close>

definition unsupported_mode_warning :: "string \<Rightarrow> string \<Rightarrow> string" where
  "unsupported_mode_warning def_id ap_ssid =
     ''netplan: serialize: '' @ def_id @ '' (SSID '' @ ap_ssid
       @ ''), unsupported AP mode, falling back to '' @ [CHR 0x27] @ ''infrastructure'' @ [CHR 0x27]"

definition write_access_point ::
  "tables \<Rightarrow> NetplanNetDefinition \<Rightarrow> NetplanWifiAccessPoint \<Rightarrow> step" where
  "write_access_point t d ap =
     steps
       ([YAML_SCALAR_QUOTED (ssid ap),
         YAML_MAPPING_OPEN]
        @ (if hidden ap then [YAML_SCALAR_PLAIN ''hidden'', YAML_SCALAR_PLAIN ''true''] else [])
        @ [YAML_SCALAR_PLAIN ''mode'']
        @ (if mode ap \<noteq> NETPLAN_WIFI_MODE_OTHER then
             [YAML_SCALAR_PLAIN (netplan_wifi_mode_to_str t (mode ap))]
           else
             [call_void (g_warning (unsupported_mode_warning (id' d) (ssid ap))),
              YAML_SCALAR_PLAIN ''infrastructure''])
        @ [write_backend_settings (ap_backend_settings ap),
           YAML_MAPPING_CLOSE])"

definition write_access_points :: "tables \<Rightarrow> NetplanNetDefinition \<Rightarrow> step" where
  "write_access_points t d =
     steps
       ([YAML_SCALAR_PLAIN ''access-points'',
         YAML_MAPPING_OPEN]
        @ map (write_access_point t d) (access_points d)
        @ [YAML_MAPPING_CLOSE])"

text \<open>
  \<^verbatim>\<open>write_netplan_conf\<close>, lines 118 to 191. Lines 126 to 130 compute the path.
\<close>

definition netplan_conf_filename :: "NetplanNetDefinition \<Rightarrow> string" where
  "netplan_conf_filename d =
     (case uuid (nm (backend_settings d)) of
        Some u \<Rightarrow> ''90-NM-'' @ u @ ''.yaml''
      | None \<Rightarrow> ''10-netplan-'' @ id' d @ ''.yaml'')"

definition netplan_conf_path :: "NetplanNetDefinition \<Rightarrow> string option \<Rightarrow> string" where
  "netplan_conf_path d rootdir =
     g_build_path G_DIR_SEPARATOR
       [case rootdir of Some r \<Rightarrow> r | None \<Rightarrow> '''',
        ''etc'', ''netplan'', netplan_conf_filename d]"

text \<open>
  Lines 139 to 182: the statements between \<^verbatim>\<open>fopen\<close> and the final \<^verbatim>\<open>fclose\<close>, all of
  which can jump to \<^verbatim>\<open>error:\<close>. \<^verbatim>\<open>goto only_passthrough\<close> skips the statements of lines 154
  to 172.
\<close>

definition write_netplan_conf_try :: "tables \<Rightarrow> NetplanNetDefinition \<Rightarrow> string \<Rightarrow> step" where
  "write_netplan_conf_try t d output =
     steps
       ([YAML_OUT_START output,
         YAML_SCALAR_PLAIN ''network'',
         YAML_MAPPING_OPEN,
         YAML_STRING_PLAIN ''version'' (Some ''2''),
         YAML_SCALAR_PLAIN (netplan_def_type_to_str t (type d)),
         YAML_MAPPING_OPEN,
         YAML_SCALAR_PLAIN (id' d),
         YAML_MAPPING_OPEN,
         YAML_STRING_PLAIN ''renderer'' (Some (netplan_backend_to_name t (backend d)))]
        @ (if type d = NETPLAN_DEF_TYPE_OTHER then []
           else
             (if has_match d then [discard_result (write_match d)] else [])
             @ (if wake_on_lan d then [YAML_STRING_PLAIN ''wakeonlan'' (Some ''true'')] else [])
             @ (if auto_config (modem_params d)
                then [YAML_STRING_PLAIN ''auto-config'' (Some ''true'')] else [])
             @ [YAML_STRING ''apn'' (apn (modem_params d)),
                YAML_STRING ''device-id'' (device_id (modem_params d)),
                YAML_STRING ''network-id'' (network_id (modem_params d)),
                YAML_STRING ''pin'' (pin (modem_params d)),
                YAML_STRING ''sim-id'' (sim_id (modem_params d)),
                YAML_STRING ''sim-operator-id'' (sim_operator_id (modem_params d))]
             @ (if type d = NETPLAN_DEF_TYPE_WIFI then [write_access_points t d] else []))
        @ [write_backend_settings (backend_settings d),
           YAML_MAPPING_CLOSE,
           YAML_MAPPING_CLOSE,
           YAML_MAPPING_CLOSE,
           YAML_OUT_STOP])"

text \<open>
  The whole function. It returns \<^verbatim>\<open>void\<close>: the model returns the world it leaves and
  nothing else. \<^verbatim>\<open>fopen\<close>'s result is not tested (line 137).
\<close>

definition write_netplan_conf ::
  "tables \<Rightarrow> NetplanNetDefinition \<Rightarrow> string option \<Rightarrow> world \<Rightarrow> world" where
  "write_netplan_conf t d rootdir s =
     (case fopen (netplan_conf_path d rootdir) s of
        (None, s1) \<Rightarrow> s1\<lparr>crashed := True\<rparr>
      | (Some output, s1) \<Rightarrow>
          (case write_netplan_conf_try t d output s1 of
             (ok, s2) \<Rightarrow>
               if ok then fclose output s2
               else fclose output (yaml_emitter_delete s2)))"

section \<open>Runs in which the writer accepts every event\<close>

text \<open>
  \<open>wrote es ws s\<close> is the world \<open>s\<close> after the emitter has accepted the events \<open>es\<close>, one
  call each, and the messages \<open>ws\<close> have been logged. \<open>produces f es ws\<close>: whenever no call
  of the writer fails, the code \<open>f\<close> runs to its end, offers exactly the events \<open>es\<close> in
  this order, logs \<open>ws\<close> and changes nothing else.
\<close>

definition wrote :: "yaml_event list \<Rightarrow> string list \<Rightarrow> world \<Rightarrow> world" where
  "wrote es ws s =
     s\<lparr>calls := calls s + length es, events := events s @ es, warnings := warnings s @ ws\<rparr>"

definition produces :: "step \<Rightarrow> yaml_event list \<Rightarrow> string list \<Rightarrow> bool" where
  "produces f es ws = (\<forall>s. (\<forall>n. \<not> fails s n) \<longrightarrow> f s = (True, wrote es ws s))"

text \<open>The emitter right after \<^verbatim>\<open>YAML_OUT_START\<close> has initialised it on the stream.\<close>

definition emitter_started :: "string \<Rightarrow> world \<Rightarrow> world" where
  "emitter_started output s = yaml_emitter_set_output_file output (yaml_emitter_initialize s)"

section \<open>The document the spec prescribes\<close>

text \<open>
  The fragments of the output document as the spec words them (sections 4.1 to 4.5 and
  the schema of section 6), to compare the code with. Each is a list of events.
  A field that is absent contributes nothing.
\<close>

definition string_doc :: "string \<Rightarrow> string option \<Rightarrow> yaml_event list" where
  "string_doc key v = (case v of None \<Rightarrow> [] | Some x \<Rightarrow> [SCALAR_PLAIN key, SCALAR_QUOTED x])"

definition passthrough_doc :: "(string \<times> string) list \<Rightarrow> yaml_event list" where
  "passthrough_doc pt = concat (map (\<lambda>(k, v). [SCALAR_PLAIN k, SCALAR_QUOTED v]) pt)"

definition backend_settings_doc :: "NetplanBackendSettings \<Rightarrow> yaml_event list" where
  "backend_settings_doc b =
     (if uuid (nm b) = None \<and> name (nm b) = None \<and> passthrough (nm b) = [] then []
      else [SCALAR_PLAIN ''networkmanager'', MAPPING_START]
        @ (case uuid (nm b) of None \<Rightarrow> [] | Some u \<Rightarrow> [SCALAR_PLAIN ''uuid'', SCALAR_PLAIN u])
        @ (case name (nm b) of None \<Rightarrow> [] | Some n \<Rightarrow> [SCALAR_PLAIN ''name'', SCALAR_QUOTED n])
        @ (if passthrough (nm b) = [] then []
           else [SCALAR_PLAIN ''passthrough'', MAPPING_START] @ passthrough_doc (passthrough (nm b))
                @ [MAPPING_END])
        @ [MAPPING_END])"

text \<open>Section 4.2: a \<^verbatim>\<open>match\<close> mapping holding the \<^verbatim>\<open>name\<close> field, if a match is declared.\<close>

definition match_doc :: "NetplanNetDefinition \<Rightarrow> yaml_event list" where
  "match_doc d =
     (if has_match d then
        [SCALAR_PLAIN ''match'', MAPPING_START]
        @ string_doc ''name'' (original_name (match d))
        @ [MAPPING_END]
      else [])"

definition wakeonlan_doc :: "NetplanNetDefinition \<Rightarrow> yaml_event list" where
  "wakeonlan_doc d =
     (if wake_on_lan d then [SCALAR_PLAIN ''wakeonlan'', SCALAR_PLAIN ''true''] else [])"

definition modem_doc :: "NetplanModemParams \<Rightarrow> yaml_event list" where
  "modem_doc m =
     (if auto_config m then [SCALAR_PLAIN ''auto-config'', SCALAR_PLAIN ''true''] else [])
     @ string_doc ''apn'' (apn m)
     @ string_doc ''device-id'' (device_id m)
     @ string_doc ''network-id'' (network_id m)
     @ string_doc ''pin'' (pin m)
     @ string_doc ''sim-id'' (sim_id m)
     @ string_doc ''sim-operator-id'' (sim_operator_id m)"

text \<open>
  Section 4.5: one access point, the diagnostics it causes, and the whole
  \<^verbatim>\<open>access-points\<close> mapping.
\<close>

definition access_point_doc :: "tables \<Rightarrow> NetplanWifiAccessPoint \<Rightarrow> yaml_event list" where
  "access_point_doc t ap =
     [SCALAR_QUOTED (ssid ap), MAPPING_START]
     @ (if hidden ap then [SCALAR_PLAIN ''hidden'', SCALAR_PLAIN ''true''] else [])
     @ [SCALAR_PLAIN ''mode'',
        SCALAR_PLAIN (if mode ap = NETPLAN_WIFI_MODE_OTHER then ''infrastructure''
                      else netplan_wifi_mode_to_str t (mode ap))]
     @ backend_settings_doc (ap_backend_settings ap)
     @ [MAPPING_END]"

definition access_point_warnings ::
  "NetplanNetDefinition \<Rightarrow> NetplanWifiAccessPoint \<Rightarrow> string list" where
  "access_point_warnings d ap =
     (if mode ap = NETPLAN_WIFI_MODE_OTHER then [unsupported_mode_warning (id' d) (ssid ap)]
      else [])"

definition access_points_doc :: "tables \<Rightarrow> NetplanWifiAccessPoint list \<Rightarrow> yaml_event list" where
  "access_points_doc t aps =
     [SCALAR_PLAIN ''access-points'', MAPPING_START]
     @ concat (map (access_point_doc t) aps)
     @ [MAPPING_END]"

text \<open>
  Section 4.1: the skeleton up to the renderer, and the end of the document: the three
  mappings of the skeleton closed, then the root mapping, the document and the stream.
\<close>

definition skeleton_doc :: "tables \<Rightarrow> NetplanNetDefinition \<Rightarrow> yaml_event list" where
  "skeleton_doc t d =
     [STREAM_START, DOCUMENT_START, MAPPING_START,
      SCALAR_PLAIN ''network'', MAPPING_START,
      SCALAR_PLAIN ''version'', SCALAR_PLAIN ''2'',
      SCALAR_PLAIN (netplan_def_type_to_str t (type d)), MAPPING_START,
      SCALAR_PLAIN (id' d), MAPPING_START,
      SCALAR_PLAIN ''renderer'', SCALAR_PLAIN (netplan_backend_to_name t (backend d))]"

definition closing_doc :: "yaml_event list" where
  "closing_doc =
     [MAPPING_END, MAPPING_END, MAPPING_END,
      MAPPING_END, DOCUMENT_END, STREAM_END]"

text \<open>The whole document, and the diagnostics of a render.\<close>

definition document :: "tables \<Rightarrow> NetplanNetDefinition \<Rightarrow> yaml_event list" where
  "document t d =
     skeleton_doc t d
     @ (if type d = NETPLAN_DEF_TYPE_OTHER then []
        else match_doc d @ wakeonlan_doc d @ modem_doc (modem_params d)
             @ (if type d = NETPLAN_DEF_TYPE_WIFI then access_points_doc t (access_points d)
                else []))
     @ backend_settings_doc (backend_settings d)
     @ closing_doc"

definition document_warnings :: "NetplanNetDefinition \<Rightarrow> string list" where
  "document_warnings d =
     (if type d = NETPLAN_DEF_TYPE_WIFI
      then concat (map (access_point_warnings d) (access_points d)) else [])"

text \<open>
  Reading a passthrough block back: the pairs of a list of events that alternates plain
  keys and quoted values, \<open>None\<close> for any other list.
\<close>

fun scalar_pairs :: "yaml_event list \<Rightarrow> (string \<times> string) list option" where
  "scalar_pairs [] = Some []"
| "scalar_pairs (SCALAR_PLAIN k # SCALAR_QUOTED v # es) =
     (case scalar_pairs es of None \<Rightarrow> None | Some kvs \<Rightarrow> Some ((k, v) # kvs))"
| "scalar_pairs es = None"

text \<open>
  Which mapping each mapping end closes: \<open>closed_keys es st k\<close> reads the events \<open>es\<close> with
  the keys \<open>st\<close> of the mappings that are open (the innermost first) and the last scalar
  \<open>k\<close> read, and lists the keys of the mappings in the order in which they are closed. The
  key of a mapping is the scalar before its start; the root mapping has the empty key.
  A list of events is \<open>balanced\<close> when it closes the mappings it opens and no other.
\<close>

fun closed_keys :: "yaml_event list \<Rightarrow> string list \<Rightarrow> string \<Rightarrow> string list" where
  "closed_keys [] st k = []"
| "closed_keys (MAPPING_START # es) st k = closed_keys es (k # st) k"
| "closed_keys (MAPPING_END # es) st k =
     (case st of [] \<Rightarrow> closed_keys es [] k | key # st' \<Rightarrow> key # closed_keys es st' k)"
| "closed_keys (SCALAR_PLAIN x # es) st k = closed_keys es st x"
| "closed_keys (SCALAR_QUOTED x # es) st k = closed_keys es st x"
| "closed_keys (e # es) st k = closed_keys es st k"

definition balanced :: "yaml_event list \<Rightarrow> bool" where
  "balanced es =
     (\<forall>st k rest. \<exists>inner k'. closed_keys (es @ rest) st k = inner @ closed_keys rest st k')"

section \<open>Runs in which calls of the writer fail\<close>

text \<open>
  \<open>keeps g\<close>: the code \<open>g\<close> leaves the failures of the writer, the streams and the file
  system as they are. \<open>orderly f\<close>: so does the code \<open>f\<close>, and when it jumps to \<^verbatim>\<open>error:\<close>,
  the last call of the writer is one that failed. \<open>then_step\<close> is the sequence of two
  statements.
\<close>

definition keeps :: "(world \<Rightarrow> world) \<Rightarrow> bool" where
  "keeps g = (\<forall>s. fails (g s) = fails s \<and> streams (g s) = streams s
                \<and> creatable (g s) = creatable s \<and> crashed (g s) = crashed s)"

definition orderly :: "step \<Rightarrow> bool" where
  "orderly f =
     (\<forall>s. fails (snd (f s)) = fails s \<and> streams (snd (f s)) = streams s
          \<and> creatable (snd (f s)) = creatable s \<and> crashed (snd (f s)) = crashed s
          \<and> (\<not> fst (f s) \<longrightarrow> 0 < calls (snd (f s)) \<and> fails s (calls (snd (f s)) - 1)))"

definition then_step :: "step \<Rightarrow> step \<Rightarrow> step" where
  "then_step f g s = (case f s of (ok, s') \<Rightarrow> if ok then g s' else (False, s'))"

text \<open>
  Where a run stops. A document is marked: each event carries \<open>True\<close> when the code
  passes a failure of its write on (a \<^verbatim>\<open>goto error\<close> that reaches the \<^verbatim>\<open>error:\<close> label of
  \<^verbatim>\<open>write_netplan_conf\<close>), and \<open>False\<close> when the code drops it: the writes of
  \<^verbatim>\<open>write_match\<close>, whose result line 155 does not test, and those of
  \<^verbatim>\<open>_passthrough_handler\<close>. \<open>first_failure s k\<close>: counted from the state \<open>s\<close>, call \<open>k\<close> of
  the writer is the first that fails. \<open>tracks f m\<close>: the code \<open>f\<close> leaves the failures of the
  writer as they are; when none of its calls fails it offers the events of \<open>m\<close> and
  runs to its end; and when the first call that fails is the write of an event marked
  \<open>True\<close>, it stops there with a jump to \<^verbatim>\<open>error:\<close>, the events before it written.
\<close>

definition strictly :: "yaml_event list \<Rightarrow> (yaml_event \<times> bool) list" where
  "strictly es = map (\<lambda>e. (e, True)) es"

definition leniently :: "yaml_event list \<Rightarrow> (yaml_event \<times> bool) list" where
  "leniently es = map (\<lambda>e. (e, False)) es"

definition first_failure :: "world \<Rightarrow> nat \<Rightarrow> bool" where
  "first_failure s k = (fails s (calls s + k) \<and> (\<forall>j<k. \<not> fails s (calls s + j)))"

definition tracks :: "step \<Rightarrow> (yaml_event \<times> bool) list \<Rightarrow> bool" where
  "tracks f m =
     (\<forall>s. fails (snd (f s)) = fails s
        \<and> ((\<forall>j<length m. \<not> fails s (calls s + j)) \<longrightarrow>
             fst (f s) \<and> calls (snd (f s)) = calls s + length m
             \<and> events (snd (f s)) = events s @ map fst m)
        \<and> (\<forall>k<length m. snd (m ! k) \<and> first_failure s k \<longrightarrow>
             \<not> fst (f s) \<and> calls (snd (f s)) = calls s + Suc k
             \<and> events (snd (f s)) = events s @ take k (map fst m)))"

text \<open>
  The marked document of the backend settings, of an access point and of a render, and
  the statements of \<^verbatim>\<open>write_netplan_conf\<close> that follow the initialisation of the emitter
  (lines 139 to 182, \<^verbatim>\<open>YAML_OUT_START\<close> without its first two calls).
\<close>

definition marked_backend_settings :: "NetplanBackendSettings \<Rightarrow> (yaml_event \<times> bool) list" where
  "marked_backend_settings b =
     (if uuid (nm b) = None \<and> name (nm b) = None \<and> passthrough (nm b) = [] then []
      else strictly
             ([SCALAR_PLAIN ''networkmanager'', MAPPING_START]
              @ (case uuid (nm b) of None \<Rightarrow> []
                 | Some u \<Rightarrow> [SCALAR_PLAIN ''uuid'', SCALAR_PLAIN u])
              @ (case name (nm b) of None \<Rightarrow> []
                 | Some n \<Rightarrow> [SCALAR_PLAIN ''name'', SCALAR_QUOTED n]))
        @ (if passthrough (nm b) = [] then []
           else strictly [SCALAR_PLAIN ''passthrough'', MAPPING_START]
                @ leniently (passthrough_doc (passthrough (nm b)))
                @ strictly [MAPPING_END])
        @ strictly [MAPPING_END])"

definition marked_access_point ::
  "tables \<Rightarrow> NetplanWifiAccessPoint \<Rightarrow> (yaml_event \<times> bool) list" where
  "marked_access_point t ap =
     strictly
       ([SCALAR_QUOTED (ssid ap), MAPPING_START]
        @ (if hidden ap then [SCALAR_PLAIN ''hidden'', SCALAR_PLAIN ''true''] else [])
        @ [SCALAR_PLAIN ''mode'',
           SCALAR_PLAIN (if mode ap = NETPLAN_WIFI_MODE_OTHER then ''infrastructure''
                         else netplan_wifi_mode_to_str t (mode ap))])
     @ marked_backend_settings (ap_backend_settings ap)
     @ strictly [MAPPING_END]"

definition marked_document :: "tables \<Rightarrow> NetplanNetDefinition \<Rightarrow> (yaml_event \<times> bool) list" where
  "marked_document t d =
     strictly (skeleton_doc t d)
     @ (if type d = NETPLAN_DEF_TYPE_OTHER then []
        else leniently (match_doc d)
             @ strictly (wakeonlan_doc d @ modem_doc (modem_params d))
             @ (if type d = NETPLAN_DEF_TYPE_WIFI
                then strictly [SCALAR_PLAIN ''access-points'', MAPPING_START]
                     @ concat (map (marked_access_point t) (access_points d))
                     @ strictly [MAPPING_END]
                else []))
     @ marked_backend_settings (backend_settings d)
     @ strictly closing_doc"

definition document_steps :: "tables \<Rightarrow> NetplanNetDefinition \<Rightarrow> step list" where
  "document_steps t d =
     [yaml_emitter_emit STREAM_START,
      yaml_emitter_emit DOCUMENT_START,
      YAML_MAPPING_OPEN,
      YAML_SCALAR_PLAIN ''network'',
      YAML_MAPPING_OPEN,
      YAML_STRING_PLAIN ''version'' (Some ''2''),
      YAML_SCALAR_PLAIN (netplan_def_type_to_str t (type d)),
      YAML_MAPPING_OPEN,
      YAML_SCALAR_PLAIN (id' d),
      YAML_MAPPING_OPEN,
      YAML_STRING_PLAIN ''renderer'' (Some (netplan_backend_to_name t (backend d)))]
     @ (if type d = NETPLAN_DEF_TYPE_OTHER then []
        else
          (if has_match d then [discard_result (write_match d)] else [])
          @ (if wake_on_lan d then [YAML_STRING_PLAIN ''wakeonlan'' (Some ''true'')] else [])
          @ (if auto_config (modem_params d)
             then [YAML_STRING_PLAIN ''auto-config'' (Some ''true'')] else [])
          @ [YAML_STRING ''apn'' (apn (modem_params d)),
             YAML_STRING ''device-id'' (device_id (modem_params d)),
             YAML_STRING ''network-id'' (network_id (modem_params d)),
             YAML_STRING ''pin'' (pin (modem_params d)),
             YAML_STRING ''sim-id'' (sim_id (modem_params d)),
             YAML_STRING ''sim-operator-id'' (sim_operator_id (modem_params d))]
          @ (if type d = NETPLAN_DEF_TYPE_WIFI then [write_access_points t d] else []))
     @ [write_backend_settings (backend_settings d),
        YAML_MAPPING_CLOSE,
        YAML_MAPPING_CLOSE,
        YAML_MAPPING_CLOSE,
        YAML_OUT_STOP]"

section \<open>Example inputs\<close>

text \<open>
  A writer that accepts every event on a file system where every path can be created;
  lookup tables; and a few definitions.
\<close>

definition example_world :: world where
  "example_world =
     \<lparr>fails = (\<lambda>n. False), calls = 0, events = [], emitter_live = False,
      emitter_output = None, warnings = [], creatable = (\<lambda>p. True), streams = [],
      crashed = False\<rparr>"

definition example_tables :: tables where
  "example_tables =
     \<lparr>netplan_def_type_to_str =
        (\<lambda>ty. case ty of
           NETPLAN_DEF_TYPE_ETHERNET \<Rightarrow> ''ethernets''
         | NETPLAN_DEF_TYPE_WIFI \<Rightarrow> ''wifis''
         | NETPLAN_DEF_TYPE_MODEM \<Rightarrow> ''modems''
         | NETPLAN_DEF_TYPE_BRIDGE \<Rightarrow> ''bridges''
         | NETPLAN_DEF_TYPE_BOND \<Rightarrow> ''bonds''
         | NETPLAN_DEF_TYPE_VLAN \<Rightarrow> ''vlans''
         | NETPLAN_DEF_TYPE_TUNNEL \<Rightarrow> ''tunnels''
         | NETPLAN_DEF_TYPE_OTHER \<Rightarrow> ''others''),
      netplan_backend_to_name =
        (\<lambda>b. case b of
           NETPLAN_BACKEND_NONE \<Rightarrow> ''none''
         | NETPLAN_BACKEND_NETWORKD \<Rightarrow> ''networkd''
         | NETPLAN_BACKEND_NM \<Rightarrow> ''NetworkManager''
         | NETPLAN_BACKEND_OVS \<Rightarrow> ''OpenVSwitch''),
      netplan_wifi_mode_to_str =
        (\<lambda>m. case m of
           NETPLAN_WIFI_MODE_INFRASTRUCTURE \<Rightarrow> ''infrastructure''
         | NETPLAN_WIFI_MODE_ADHOC \<Rightarrow> ''adhoc''
         | NETPLAN_WIFI_MODE_AP \<Rightarrow> ''ap''
         | NETPLAN_WIFI_MODE_OTHER \<Rightarrow> ''other'')\<rparr>"

definition no_settings :: NetplanBackendSettings where
  "no_settings = \<lparr>nm = \<lparr>name = None, uuid = None, passthrough = []\<rparr>\<rparr>"

definition no_modem_params :: NetplanModemParams where
  "no_modem_params =
     \<lparr>auto_config = False, apn = None, device_id = None, network_id = None, pin = None,
      sim_id = None, sim_operator_id = None\<rparr>"

definition example_settings :: NetplanBackendSettings where
  "example_settings =
     \<lparr>nm = \<lparr>name = Some ''Home'', uuid = None,
            passthrough = [(''ipv6.method'', ''auto''), (''proxy.method'', ''none'')]\<rparr>\<rparr>"

definition example_ethernet :: NetplanNetDefinition where
  "example_ethernet =
     \<lparr>type = NETPLAN_DEF_TYPE_ETHERNET, backend = NETPLAN_BACKEND_NM, id' = ''eth0'',
      has_match = True, match = \<lparr>original_name = Some ''eth0''\<rparr>, wake_on_lan = True,
      modem_params = no_modem_params\<lparr>apn := Some ''internet''\<rparr>,
      access_points = [], backend_settings = example_settings\<rparr>"

definition example_other :: NetplanNetDefinition where
  "example_other =
     \<lparr>type = NETPLAN_DEF_TYPE_OTHER, backend = NETPLAN_BACKEND_NM, id' = ''vpn0'',
      has_match = True, match = \<lparr>original_name = Some ''tun0''\<rparr>, wake_on_lan = True,
      modem_params = no_modem_params\<lparr>apn := Some ''internet''\<rparr>,
      access_points = [],
      backend_settings = \<lparr>nm = \<lparr>name = None, uuid = Some ''abc-123'', passthrough = []\<rparr>\<rparr>\<rparr>"

definition example_access_point :: NetplanWifiAccessPoint where
  "example_access_point =
     \<lparr>ssid = ''mesh'', hidden = True, mode = NETPLAN_WIFI_MODE_OTHER,
      ap_backend_settings = no_settings\<rparr>"

definition example_wifi :: NetplanNetDefinition where
  "example_wifi =
     \<lparr>type = NETPLAN_DEF_TYPE_WIFI, backend = NETPLAN_BACKEND_NM, id' = ''wlan0'',
      has_match = False, match = \<lparr>original_name = None\<rparr>, wake_on_lan = False,
      modem_params = no_modem_params,
      access_points =
        [\<lparr>ssid = ''home'', hidden = False, mode = NETPLAN_WIFI_MODE_AP,
          ap_backend_settings = no_settings\<rparr>,
         example_access_point],
      backend_settings = no_settings\<rparr>"

definition example_bridge :: NetplanNetDefinition where
  "example_bridge =
     \<lparr>type = NETPLAN_DEF_TYPE_BRIDGE, backend = NETPLAN_BACKEND_NETWORKD, id' = ''br0'',
      has_match = False, match = \<lparr>original_name = None\<rparr>, wake_on_lan = False,
      modem_params = no_modem_params\<lparr>auto_config := True, pin := Some ''1234''\<rparr>,
      access_points = [], backend_settings = no_settings\<rparr>"

section \<open>Lemmas\<close>

lemma wrote_fails [simp]: "fails (wrote es ws s) = fails s"
  by (simp add: wrote_def)

lemma wrote_Nil [simp]: "wrote [] [] s = s"
  by (simp add: wrote_def)

lemma wrote_wrote [simp]: "wrote es2 ws2 (wrote es1 ws1 s) = wrote (es1 @ es2) (ws1 @ ws2) s"
  by (simp add: wrote_def)

lemma steps_append:
  "steps (fs @ gs) s = (case steps fs s of (ok, s') \<Rightarrow> if ok then steps gs s' else (False, s'))"
  by (induction fs arbitrary: s) (auto split: prod.splits)

lemma producesI: "(\<And>s. \<forall>n. \<not> fails s n \<Longrightarrow> f s = (True, wrote es ws s)) \<Longrightarrow> produces f es ws"
  by (simp add: produces_def)

lemma producesD: "produces f es ws \<Longrightarrow> \<forall>n. \<not> fails s n \<Longrightarrow> f s = (True, wrote es ws s)"
  by (simp add: produces_def)

lemma produces_emit: "produces (yaml_emitter_emit e) [e] []"
  by (simp add: produces_def yaml_emitter_emit_def wrote_def)

lemma produces_steps_Nil: "produces (steps []) [] []"
  by (simp add: produces_def)

lemma produces_steps_Cons:
  assumes "produces f es ws" and "produces (steps fs) es' ws'"
  shows "produces (steps (f # fs)) (es @ es') (ws @ ws')"
proof (rule producesI)
  fix s :: world assume ok: "\<forall>n. \<not> fails s n"
  have 1: "f s = (True, wrote es ws s)" using assms(1) ok by (rule producesD)
  have "\<forall>n. \<not> fails (wrote es ws s) n" using ok by simp
  then have 2: "steps fs (wrote es ws s) = (True, wrote es' ws' (wrote es ws s))"
    using assms(2) by (simp add: produces_def)
  show "steps (f # fs) s = (True, wrote (es @ es') (ws @ ws') s)"
    by (simp add: 1 2)
qed

lemma produces_steps_append:
  assumes "produces (steps fs) es ws" and "produces (steps gs) es' ws'"
  shows "produces (steps (fs @ gs)) (es @ es') (ws @ ws')"
proof (rule producesI)
  fix s :: world assume ok: "\<forall>n. \<not> fails s n"
  have 1: "steps fs s = (True, wrote es ws s)" using assms(1) ok by (rule producesD)
  have "\<forall>n. \<not> fails (wrote es ws s) n" using ok by simp
  then have 2: "steps gs (wrote es ws s) = (True, wrote es' ws' (wrote es ws s))"
    using assms(2) by (simp add: produces_def)
  show "steps (fs @ gs) s = (True, wrote (es @ es') (ws @ ws') s)"
    by (simp add: steps_append 1 2)
qed

lemma produces_single: "produces f es ws \<Longrightarrow> produces (steps [f]) es ws"
  using produces_steps_Cons [OF _ produces_steps_Nil, of f es ws] by simp

lemma produces_plain: "produces (YAML_SCALAR_PLAIN x) [SCALAR_PLAIN x] []"
  by (simp add: YAML_SCALAR_PLAIN_def produces_emit)

lemma produces_quoted: "produces (YAML_SCALAR_QUOTED x) [SCALAR_QUOTED x] []"
  by (simp add: YAML_SCALAR_QUOTED_def produces_emit)

lemma produces_open: "produces YAML_MAPPING_OPEN [MAPPING_START] []"
  by (simp add: YAML_MAPPING_OPEN_def produces_emit)

lemma produces_close: "produces YAML_MAPPING_CLOSE [MAPPING_END] []"
  by (simp add: YAML_MAPPING_CLOSE_def produces_emit)

lemma produces_pair:
  assumes "produces f es ws" and "produces g es' ws'"
  shows "produces (steps [f, g]) (es @ es') (ws @ ws')"
  by (rule produces_steps_Cons [OF assms(1) produces_single [OF assms(2)]])

lemma produces_YAML_STRING: "produces (YAML_STRING key v) (string_doc key v) []"
proof (cases v)
  case None
  then show ?thesis by (simp add: YAML_STRING_def string_doc_def produces_steps_Nil)
next
  case (Some x)
  show ?thesis
    using produces_pair [OF produces_plain [of key] produces_quoted [of x]]
    by (simp add: YAML_STRING_def string_doc_def Some)
qed

lemma produces_YAML_STRING_PLAIN:
  "produces (YAML_STRING_PLAIN key (Some x)) [SCALAR_PLAIN key, SCALAR_PLAIN x] []"
  using produces_pair [OF produces_plain [of key] produces_plain [of x]]
  by (simp add: YAML_STRING_PLAIN_def)

lemma passthrough_handler_ok:
  assumes "\<forall>n. \<not> fails s n"
  shows "passthrough_handler k v s = wrote [SCALAR_PLAIN k, SCALAR_QUOTED v] [] s"
  using producesD [OF produces_pair [OF produces_plain [of k] produces_quoted [of v]] assms]
  by (simp add: passthrough_handler_def)

lemma foreach_ok:
  "\<forall>n. \<not> fails s n \<Longrightarrow>
   g_datalist_foreach pt passthrough_handler s = wrote (passthrough_doc pt) [] s"
proof (induction pt arbitrary: s)
  case Nil
  then show ?case by (simp add: passthrough_doc_def)
next
  case (Cons kv pt)
  obtain k v where kv: "kv = (k, v)" by (cases kv)
  have "\<forall>n. \<not> fails (wrote [SCALAR_PLAIN k, SCALAR_QUOTED v] [] s) n"
    using Cons.prems by simp
  from Cons.IH [OF this] show ?case
    using Cons.prems by (simp add: kv passthrough_handler_ok passthrough_doc_def)
qed

lemma produces_foreach:
  "produces (call_void (g_datalist_foreach pt passthrough_handler)) (passthrough_doc pt) []"
  by (simp add: produces_def call_void_def foreach_ok)

lemma produces_uuid:
  "produces (steps (case u of Some x \<Rightarrow> [YAML_SCALAR_PLAIN ''uuid'', YAML_SCALAR_PLAIN x] | None \<Rightarrow> []))
     (case u of None \<Rightarrow> [] | Some x \<Rightarrow> [SCALAR_PLAIN ''uuid'', SCALAR_PLAIN x]) []"
  using produces_pair [OF produces_plain produces_plain]
  by (cases u) (simp_all add: produces_steps_Nil)

lemma produces_name:
  "produces (steps (case u of Some x \<Rightarrow> [YAML_SCALAR_PLAIN ''name'', YAML_SCALAR_QUOTED x] | None \<Rightarrow> []))
     (case u of None \<Rightarrow> [] | Some x \<Rightarrow> [SCALAR_PLAIN ''name'', SCALAR_QUOTED x]) []"
  using produces_pair [OF produces_plain produces_quoted]
  by (cases u) (simp_all add: produces_steps_Nil)

lemma produces_passthrough_block:
  "produces
     (steps (if pt \<noteq> [] then
                [YAML_SCALAR_PLAIN ''passthrough'', YAML_MAPPING_OPEN,
                 call_void (g_datalist_foreach pt passthrough_handler), YAML_MAPPING_CLOSE]
              else []))
     (if pt = [] then []
      else [SCALAR_PLAIN ''passthrough'', MAPPING_START] @ passthrough_doc pt @ [MAPPING_END]) []"
proof (cases "pt = []")
  case True
  then show ?thesis by (simp add: produces_steps_Nil)
next
  case False
  have "produces
     (steps [YAML_SCALAR_PLAIN ''passthrough'', YAML_MAPPING_OPEN,
             call_void (g_datalist_foreach pt passthrough_handler), YAML_MAPPING_CLOSE])
     ([SCALAR_PLAIN ''passthrough''] @ [MAPPING_START] @ passthrough_doc pt @ [MAPPING_END])
     ([] @ [] @ [] @ [])"
    by (intro produces_steps_Cons produces_single produces_plain produces_open
          produces_foreach produces_close)
  then show ?thesis using False by simp
qed

lemma non_null_iff: "non_null x \<longleftrightarrow> x \<noteq> None"
  by (cases x) simp_all

lemma produces_write_backend_settings:
  "produces (write_backend_settings b) (backend_settings_doc b) []"
proof (cases "uuid (nm b) = None \<and> name (nm b) = None \<and> passthrough (nm b) = []")
  case True
  then show ?thesis
    by (simp add: write_backend_settings_def backend_settings_doc_def produces_steps_Nil)
next
  case False
  have "produces
     (steps ([YAML_SCALAR_PLAIN ''networkmanager'', YAML_MAPPING_OPEN]
        @ (case uuid (nm b) of
             Some u \<Rightarrow> [YAML_SCALAR_PLAIN ''uuid'', YAML_SCALAR_PLAIN u] | None \<Rightarrow> [])
        @ (case name (nm b) of
             Some n \<Rightarrow> [YAML_SCALAR_PLAIN ''name'', YAML_SCALAR_QUOTED n] | None \<Rightarrow> [])
        @ (if passthrough (nm b) \<noteq> [] then
             [YAML_SCALAR_PLAIN ''passthrough'', YAML_MAPPING_OPEN,
              call_void (g_datalist_foreach (passthrough (nm b)) passthrough_handler),
              YAML_MAPPING_CLOSE]
           else [])
        @ [YAML_MAPPING_CLOSE]))
     (([SCALAR_PLAIN ''networkmanager''] @ [MAPPING_START])
        @ (case uuid (nm b) of None \<Rightarrow> [] | Some u \<Rightarrow> [SCALAR_PLAIN ''uuid'', SCALAR_PLAIN u])
        @ (case name (nm b) of None \<Rightarrow> [] | Some n \<Rightarrow> [SCALAR_PLAIN ''name'', SCALAR_QUOTED n])
        @ (if passthrough (nm b) = [] then []
           else [SCALAR_PLAIN ''passthrough'', MAPPING_START]
                @ passthrough_doc (passthrough (nm b)) @ [MAPPING_END])
        @ [MAPPING_END])
     (([] @ []) @ [] @ [] @ [] @ [])"
    by (intro produces_steps_append produces_pair produces_single produces_plain produces_open
          produces_close produces_uuid produces_name produces_passthrough_block)
  moreover have "non_null (uuid (nm b)) \<or> non_null (name (nm b)) \<or> passthrough (nm b) \<noteq> []"
    using False by (auto simp: non_null_iff)
  moreover have "backend_settings_doc b =
      [SCALAR_PLAIN ''networkmanager'', MAPPING_START]
        @ (case uuid (nm b) of None \<Rightarrow> [] | Some u \<Rightarrow> [SCALAR_PLAIN ''uuid'', SCALAR_PLAIN u])
        @ (case name (nm b) of None \<Rightarrow> [] | Some n \<Rightarrow> [SCALAR_PLAIN ''name'', SCALAR_QUOTED n])
        @ (if passthrough (nm b) = [] then []
           else [SCALAR_PLAIN ''passthrough'', MAPPING_START]
                @ passthrough_doc (passthrough (nm b)) @ [MAPPING_END])
        @ [MAPPING_END]"
    using False unfolding backend_settings_doc_def by (simp only: if_False)
  ultimately show ?thesis
    by (simp add: write_backend_settings_def)
qed

lemma steps_produces:
  assumes "produces f es ws" and "\<forall>n. \<not> fails s n"
  shows "steps (f # fs) s = steps fs (wrote es ws s)"
  using producesD [OF assms] by simp

lemma steps_nested: "steps (steps gs # fs) s = steps (gs @ fs) s"
  by (simp add: steps_append)

lemma steps_call_void: "steps (call_void g # fs) s = steps fs (g s)"
  by (simp add: call_void_def)

lemma g_warning_wrote: "g_warning m s = wrote [] [m] s"
  by (simp add: g_warning_def wrote_def)

lemmas accepted_steps =
  steps_produces [OF produces_plain] steps_produces [OF produces_quoted]
  steps_produces [OF produces_open] steps_produces [OF produces_close]
  steps_produces [OF produces_emit] steps_produces [OF produces_YAML_STRING]
  steps_produces [OF produces_YAML_STRING_PLAIN]
  steps_produces [OF produces_write_backend_settings]
  steps_call_void g_warning_wrote

lemma produces_write_access_point:
  "produces (write_access_point t d ap) (access_point_doc t ap) (access_point_warnings d ap)"
  by (rule producesI)
     (simp add: write_access_point_def access_point_doc_def access_point_warnings_def
        accepted_steps del: steps.simps(2))

lemma steps_access_points_loop:
  "\<forall>n. \<not> fails s n \<Longrightarrow>
   steps (map (write_access_point t d) aps @ fs) s =
   steps fs (wrote (concat (map (access_point_doc t) aps))
                   (concat (map (access_point_warnings d) aps)) s)"
proof (induction aps arbitrary: s)
  case Nil
  then show ?case by simp
next
  case (Cons ap aps)
  have "\<forall>n. \<not> fails (wrote (access_point_doc t ap) (access_point_warnings d ap) s) n"
    using Cons.prems by simp
  from Cons.IH [OF this] show ?case
    using Cons.prems
    by (simp add: steps_produces [OF produces_write_access_point] del: steps.simps(2))
qed

lemma produces_write_access_points:
  "produces (write_access_points t d) (access_points_doc t (access_points d))
     (concat (map (access_point_warnings d) (access_points d)))"
  by (rule producesI)
     (simp add: write_access_points_def access_points_doc_def accepted_steps
        steps_access_points_loop del: steps.simps(2))

lemma produces_write_match: "produces (write_match d) (match_doc (d\<lparr>has_match := True\<rparr>)) []"
  by (rule producesI)
     (simp add: write_match_def match_doc_def accepted_steps del: steps.simps(2))

lemma steps_discard_write_match:
  "\<forall>n. \<not> fails s n \<Longrightarrow>
   steps (discard_result (write_match d) # fs) s =
   steps fs (wrote (match_doc (d\<lparr>has_match := True\<rparr>)) [] s)"
  using producesD [OF produces_write_match, of s d] by (simp add: discard_result_def)

lemma emitter_started_fails [simp]: "fails (emitter_started output s) = fails s"
  by (simp add: emitter_started_def yaml_emitter_set_output_file_def yaml_emitter_initialize_def)

lemma YAML_OUT_START_ok:
  "\<forall>n. \<not> fails s n \<Longrightarrow>
   steps (YAML_OUT_START output # fs) s =
   steps fs (wrote [STREAM_START, DOCUMENT_START, MAPPING_START] [] (emitter_started output s))"
  by (simp add: YAML_OUT_START_def steps_nested accepted_steps emitter_started_def
        yaml_emitter_set_output_file_def yaml_emitter_initialize_def del: steps.simps(2))

lemma YAML_OUT_STOP_ok:
  "\<forall>n. \<not> fails s n \<Longrightarrow>
   steps (YAML_OUT_STOP # fs) s =
   steps fs (yaml_emitter_delete (wrote [MAPPING_END, DOCUMENT_END, STREAM_END] [] s))"
  by (simp add: YAML_OUT_STOP_def steps_nested accepted_steps del: steps.simps(2))

lemma yaml_emitter_delete_wrote:
  "yaml_emitter_delete (wrote es ws s) = wrote es ws (yaml_emitter_delete s)"
  by (simp add: yaml_emitter_delete_def wrote_def)

lemma write_netplan_conf_try_ok:
  assumes "\<forall>n. \<not> fails s n"
  shows "write_netplan_conf_try t d output s =
     (True, yaml_emitter_delete
              (wrote (document t d) (document_warnings d) (emitter_started output s)))"
  using assms
  by (simp add: write_netplan_conf_try_def YAML_OUT_START_ok YAML_OUT_STOP_ok accepted_steps
        steps_produces [OF produces_write_access_points] steps_discard_write_match
        document_def document_warnings_def skeleton_doc_def closing_doc_def match_doc_def
        wakeonlan_doc_def modem_doc_def del: steps.simps(2))

lemma write_netplan_conf_ok:
  assumes "\<forall>n. \<not> fails s n" and "creatable s (netplan_conf_path d rootdir)"
  shows "write_netplan_conf t d rootdir s =
     yaml_emitter_delete
       (wrote (document t d) (document_warnings d)
          (emitter_started (netplan_conf_path d rootdir) s))"
proof -
  let ?p = "netplan_conf_path d rootdir"
  let ?s1 = "s\<lparr>streams := ?p # streams s\<rparr>"
  have "\<forall>n. \<not> fails ?s1 n" using assms(1) by simp
  from write_netplan_conf_try_ok [OF this]
  have "write_netplan_conf_try t d ?p ?s1 =
      (True, yaml_emitter_delete (wrote (document t d) (document_warnings d) (emitter_started ?p ?s1)))" .
  then show ?thesis
    using assms(2)
    by (simp add: write_netplan_conf_def fopen_def fclose_def yaml_emitter_delete_def wrote_def
          emitter_started_def yaml_emitter_set_output_file_def yaml_emitter_initialize_def)
qed

lemma rendered_events:
  "events (yaml_emitter_delete (wrote es ws (emitter_started p s))) = es"
  by (simp add: yaml_emitter_delete_def wrote_def emitter_started_def
        yaml_emitter_set_output_file_def yaml_emitter_initialize_def)

lemma rendered_not_live: "\<not> emitter_live (yaml_emitter_delete s)"
  by (simp add: yaml_emitter_delete_def)

lemma rendered_warnings:
  "warnings (yaml_emitter_delete (wrote es ws (emitter_started p s))) = warnings s @ ws"
  by (simp add: yaml_emitter_delete_def wrote_def emitter_started_def
        yaml_emitter_set_output_file_def yaml_emitter_initialize_def)

lemma scalar_pairs_passthrough_doc: "scalar_pairs (passthrough_doc pt) = Some pt"
  by (induction pt) (auto simp: passthrough_doc_def)

lemma orderly_emit: "orderly (yaml_emitter_emit e)"
  by (simp add: orderly_def yaml_emitter_emit_def)

lemma orderly_call_void: "keeps g \<Longrightarrow> orderly (call_void g)"
  by (simp add: orderly_def keeps_def call_void_def)

lemma orderly_discard_result: "orderly f \<Longrightarrow> orderly (discard_result f)"
  by (simp add: orderly_def discard_result_def)

lemma orderlyD:
  assumes "orderly f" and "f s = (ok, s')"
  shows "fails s' = fails s" and "streams s' = streams s" and "creatable s' = creatable s"
    and "crashed s' = crashed s" and "\<not> ok \<Longrightarrow> 0 < calls s' \<and> fails s (calls s' - 1)"
  using assms(1) [unfolded orderly_def, rule_format, of s] assms(2) by simp_all

lemma orderlyI:
  assumes "\<And>s ok s'. f s = (ok, s') \<Longrightarrow>
      fails s' = fails s \<and> streams s' = streams s \<and> creatable s' = creatable s
      \<and> crashed s' = crashed s \<and> (\<not> ok \<longrightarrow> 0 < calls s' \<and> fails s (calls s' - 1))"
  shows "orderly f"
  unfolding orderly_def
proof
  fix s
  obtain ok s' where r: "f s = (ok, s')" by (cases "f s")
  from assms [OF r] show "fails (snd (f s)) = fails s \<and> streams (snd (f s)) = streams s
          \<and> creatable (snd (f s)) = creatable s \<and> crashed (snd (f s)) = crashed s
          \<and> (\<not> fst (f s) \<longrightarrow> 0 < calls (snd (f s)) \<and> fails s (calls (snd (f s)) - 1))"
    by (simp add: r)
qed

lemma orderly_steps: "list_all orderly fs \<Longrightarrow> orderly (steps fs)"
proof (induction fs)
  case Nil
  then show ?case by (simp add: orderly_def)
next
  case (Cons f fs)
  have f: "orderly f" using Cons.prems by simp
  have fs: "orderly (steps fs)" using Cons by simp
  show ?case
  proof (rule orderlyI)
    fix s ok s2
    assume run: "steps (f # fs) s = (ok, s2)"
    obtain ok1 s1 where r: "f s = (ok1, s1)" by (cases "f s")
    note k = orderlyD [OF f r]
    show "fails s2 = fails s \<and> streams s2 = streams s \<and> creatable s2 = creatable s
        \<and> crashed s2 = crashed s \<and> (\<not> ok \<longrightarrow> 0 < calls s2 \<and> fails s (calls s2 - 1))"
    proof (cases ok1)
      case True
      then have rest: "steps fs s1 = (ok, s2)" using run r by simp
      note k2 = orderlyD [OF fs rest]
      show ?thesis using k(1-4) k2 by simp
    next
      case False
      then have "ok = False" "s2 = s1" using run r by simp_all
      then show ?thesis using k(1-4) k(5) [OF False] by simp
    qed
  qed
qed

lemma keeps_snd: "orderly f \<Longrightarrow> keeps (\<lambda>s. snd (f s))"
  by (simp add: orderly_def keeps_def)

lemma keeps_initialize: "keeps yaml_emitter_initialize"
  by (simp add: keeps_def yaml_emitter_initialize_def)

lemma keeps_set_output_file: "keeps (yaml_emitter_set_output_file file)"
  by (simp add: keeps_def yaml_emitter_set_output_file_def)

lemma keeps_delete: "keeps yaml_emitter_delete"
  by (simp add: keeps_def yaml_emitter_delete_def)

lemma keeps_g_warning: "keeps (g_warning m)"
  by (simp add: keeps_def g_warning_def)

lemma orderly_macros:
  "orderly YAML_MAPPING_OPEN" "orderly YAML_MAPPING_CLOSE"
  "orderly (YAML_SCALAR_PLAIN x)" "orderly (YAML_SCALAR_QUOTED x)"
  by (simp_all add: YAML_MAPPING_OPEN_def YAML_MAPPING_CLOSE_def YAML_SCALAR_PLAIN_def
        YAML_SCALAR_QUOTED_def orderly_emit)

lemma orderly_YAML_STRING: "orderly (YAML_STRING key v)"
  by (cases v) (simp_all add: YAML_STRING_def orderly_steps orderly_macros)

lemma orderly_YAML_STRING_PLAIN: "orderly (YAML_STRING_PLAIN key v)"
  by (cases v) (simp_all add: YAML_STRING_PLAIN_def orderly_steps orderly_macros)

lemma keeps_passthrough_handler: "keeps (passthrough_handler k v)"
proof -
  have "orderly (steps [YAML_SCALAR_PLAIN k, YAML_SCALAR_QUOTED v])"
    by (simp add: orderly_steps orderly_macros)
  from keeps_snd [OF this] show ?thesis
    by (simp add: keeps_def passthrough_handler_def del: steps.simps)
qed

lemma keeps_foreach: "keeps (g_datalist_foreach pt passthrough_handler)"
proof (induction pt)
  case Nil
  then show ?case by (simp add: keeps_def)
next
  case (Cons kv pt)
  obtain k v where kv: "kv = (k, v)" by (cases kv)
  show ?case
    using Cons keeps_passthrough_handler [of k v] by (simp add: kv keeps_def)
qed

lemma orderly_write_match: "orderly (write_match d)"
  by (simp add: write_match_def orderly_steps orderly_macros orderly_YAML_STRING)

lemma orderly_write_backend_settings: "orderly (write_backend_settings b)"
  by (simp add: write_backend_settings_def orderly_steps orderly_macros orderly_call_void
        keeps_foreach split: option.split)

lemma orderly_write_access_point: "orderly (write_access_point t d ap)"
  by (simp add: write_access_point_def orderly_steps orderly_macros orderly_call_void
        keeps_g_warning orderly_write_backend_settings)

lemma orderly_write_access_points: "orderly (write_access_points t d)"
  by (simp add: write_access_points_def orderly_steps orderly_macros
        orderly_write_access_point list_all_iff)

lemma orderly_YAML_OUT_START: "orderly (YAML_OUT_START file)"
  by (simp add: YAML_OUT_START_def orderly_steps orderly_macros orderly_emit
        orderly_call_void keeps_initialize keeps_set_output_file)

lemma orderly_YAML_OUT_STOP: "orderly YAML_OUT_STOP"
  by (simp add: YAML_OUT_STOP_def orderly_steps orderly_macros orderly_emit
        orderly_call_void keeps_delete)

lemma orderly_write_netplan_conf_try: "orderly (write_netplan_conf_try t d output)"
  by (simp add: write_netplan_conf_try_def orderly_steps orderly_discard_result
        orderly_macros orderly_YAML_STRING orderly_YAML_STRING_PLAIN
        orderly_write_match orderly_write_access_points orderly_write_backend_settings
        orderly_YAML_OUT_START orderly_YAML_OUT_STOP)

lemma steps_last_True:
  "fs \<noteq> [] \<Longrightarrow> steps fs s = (True, s2) \<Longrightarrow> \<exists>s'. last fs s' = (True, s2)"
proof (induction fs arbitrary: s)
  case Nil
  then show ?case by simp
next
  case (Cons f fs)
  obtain ok s1 where r: "f s = (ok, s1)" by (cases "f s")
  show ?case
  proof (cases "fs = []")
    case True
    then show ?thesis using Cons.prems r by (auto split: if_splits)
  next
    case False
    from Cons.prems r have "ok" and "steps fs s1 = (True, s2)" by (auto split: if_splits)
    from Cons.IH [OF False this(2)] show ?thesis using False by simp
  qed
qed

lemma YAML_OUT_STOP_True:
  "YAML_OUT_STOP s = (True, s2) \<Longrightarrow>
   \<not> emitter_live s2 \<and> events s2 \<noteq> [] \<and> last (events s2) = STREAM_END"
  by (auto simp: YAML_OUT_STOP_def YAML_MAPPING_CLOSE_def yaml_emitter_emit_def call_void_def
        yaml_emitter_delete_def split: if_splits)

lemma write_netplan_conf_try_True:
  assumes "write_netplan_conf_try t d output s = (True, s2)"
  shows "\<not> emitter_live s2 \<and> events s2 \<noteq> [] \<and> last (events s2) = STREAM_END"
proof -
  from assms obtain s' where "YAML_OUT_STOP s' = (True, s2)"
    unfolding write_netplan_conf_try_def
    by (auto dest!: steps_last_True [rotated] simp del: steps.simps)
  then show ?thesis by (rule YAML_OUT_STOP_True)
qed

lemma steps_emits_fail:
  assumes "k < length es" and "fails s (calls s + k)" and "\<forall>j<k. \<not> fails s (calls s + j)"
  shows "steps (map yaml_emitter_emit es @ fs) s =
           (False, s\<lparr>calls := calls s + Suc k, events := events s @ take k es\<rparr>)"
  using assms
proof (induction es arbitrary: k s)
  case Nil
  then show ?case by simp
next
  case (Cons e es)
  show ?case
  proof (cases k)
    case 0
    then show ?thesis using Cons.prems by (simp add: yaml_emitter_emit_def)
  next
    case (Suc k')
    let ?s' = "s\<lparr>calls := Suc (calls s), events := events s @ [e]\<rparr>"
    have ok: "\<not> fails s (calls s)" using Cons.prems(3) Suc by force
    have 1: "k' < length es" using Cons.prems(1) Suc by simp
    have 2: "fails ?s' (calls ?s' + k')" using Cons.prems(2) Suc by simp
    have 3: "\<forall>j<k'. \<not> fails ?s' (calls ?s' + j)"
    proof (intro allI impI)
      fix j assume "j < k'"
      then have "Suc j < k" using Suc by simp
      with Cons.prems(3) have "\<not> fails s (calls s + Suc j)" by blast
      then show "\<not> fails ?s' (calls ?s' + j)" by simp
    qed
    from Cons.IH [OF 1 2 3] show ?thesis
      using ok Suc by (simp add: yaml_emitter_emit_def)
  qed
qed

lemma steps_Cons_then: "steps (f # fs) = then_step f (steps fs)"
  by (rule ext) (simp add: then_step_def)

lemma then_step_assoc: "then_step (then_step f g) h = then_step f (then_step g h)"
  by (rule ext) (simp add: then_step_def split: prod.split)

lemma then_step_Nil: "then_step f (steps []) = f"
  by (rule ext) (simp add: then_step_def split: prod.split)

lemma then_step_call_void: "then_step (call_void g) h s = h (g s)"
  by (simp add: then_step_def call_void_def)

lemma skeleton_steps:
  "steps [YAML_OUT_START output,
          YAML_SCALAR_PLAIN ''network'',
          YAML_MAPPING_OPEN,
          YAML_STRING_PLAIN ''version'' (Some ''2''),
          YAML_SCALAR_PLAIN (netplan_def_type_to_str t (type d)),
          YAML_MAPPING_OPEN,
          YAML_SCALAR_PLAIN (id' d),
          YAML_MAPPING_OPEN,
          YAML_STRING_PLAIN ''renderer'' (Some (netplan_backend_to_name t (backend d)))] s
   = steps (map yaml_emitter_emit (skeleton_doc t d) @ []) (emitter_started output s)"
  by (simp add: YAML_OUT_START_def YAML_STRING_PLAIN_def YAML_MAPPING_OPEN_def
        YAML_SCALAR_PLAIN_def skeleton_doc_def emitter_started_def
        steps_Cons_then then_step_assoc then_step_Nil then_step_call_void
      del: steps.simps)

lemma abort_in_skeleton:
  assumes "k < length (skeleton_doc t d)" and "fails s k" and "\<forall>j<k. \<not> fails s j"
  shows "write_netplan_conf_try t d output s =
     (False, (emitter_started output s)\<lparr>calls := Suc k, events := take k (skeleton_doc t d)\<rparr>)"
proof -
  let ?s0 = "emitter_started output s"
  have c: "calls ?s0 = 0" "events ?s0 = []" "fails ?s0 = fails s"
    by (simp_all add: emitter_started_def yaml_emitter_set_output_file_def
          yaml_emitter_initialize_def)
  have "steps (map yaml_emitter_emit (skeleton_doc t d) @ []) ?s0 =
      (False, ?s0\<lparr>calls := calls ?s0 + Suc k, events := events ?s0 @ take k (skeleton_doc t d)\<rparr>)"
    by (rule steps_emits_fail) (use assms in \<open>simp_all add: c\<close>)
  then have "steps (map yaml_emitter_emit (skeleton_doc t d) @ []) ?s0 =
      (False, ?s0\<lparr>calls := Suc k, events := take k (skeleton_doc t d)\<rparr>)"
    by (simp add: c)
  then show ?thesis
    unfolding write_netplan_conf_try_def
    by (subst steps_append) (simp only: skeleton_steps prod.case if_False)
qed

lemma try_streams: "streams (snd (write_netplan_conf_try t d output s)) = streams s"
proof -
  obtain ok s' where r: "write_netplan_conf_try t d output s = (ok, s')"
    by (cases "write_netplan_conf_try t d output s")
  from orderlyD(2) [OF orderly_write_netplan_conf_try r] show ?thesis by (simp add: r)
qed

lemma balanced_Nil: "balanced []"
  unfolding balanced_def
proof (intro allI)
  fix st k rest
  show "\<exists>inner k'. closed_keys ([] @ rest) st k = inner @ closed_keys rest st k'"
    by (rule exI [of _ "[]"]) (simp, rule exI, rule refl)
qed

lemma balanced_plain: "balanced [SCALAR_PLAIN x]"
  unfolding balanced_def
proof (intro allI)
  fix st k rest
  show "\<exists>inner k'. closed_keys ([SCALAR_PLAIN x] @ rest) st k = inner @ closed_keys rest st k'"
    by (rule exI [of _ "[]"]) (simp, rule exI, rule refl)
qed

lemma balanced_quoted: "balanced [SCALAR_QUOTED x]"
  unfolding balanced_def
proof (intro allI)
  fix st k rest
  show "\<exists>inner k'. closed_keys ([SCALAR_QUOTED x] @ rest) st k = inner @ closed_keys rest st k'"
    by (rule exI [of _ "[]"]) (simp, rule exI, rule refl)
qed

lemma balanced_append:
  assumes "balanced a" and "balanced b"
  shows "balanced (a @ b)"
  unfolding balanced_def
proof (intro allI)
  fix st k rest
  from assms(1) obtain i1 k1 where 1: "closed_keys (a @ (b @ rest)) st k = i1 @ closed_keys (b @ rest) st k1"
    unfolding balanced_def by blast
  from assms(2) obtain i2 k2 where 2: "closed_keys (b @ rest) st k1 = i2 @ closed_keys rest st k2"
    unfolding balanced_def by blast
  have "closed_keys ((a @ b) @ rest) st k = (i1 @ i2) @ closed_keys rest st k2"
    using 1 2 by simp
  then show "\<exists>inner k'. closed_keys ((a @ b) @ rest) st k = inner @ closed_keys rest st k'"
    by blast
qed

lemma balanced_Cons_plain: "balanced es \<Longrightarrow> balanced (SCALAR_PLAIN x # es)"
  using balanced_append [OF balanced_plain, of es x] by simp

lemma balanced_Cons_quoted: "balanced es \<Longrightarrow> balanced (SCALAR_QUOTED x # es)"
  using balanced_append [OF balanced_quoted, of es x] by simp

lemma balanced_mapping:
  assumes "balanced es"
  shows "balanced (MAPPING_START # es @ [MAPPING_END])"
  unfolding balanced_def
proof (intro allI)
  fix st k rest
  from assms obtain i k1 where
    "closed_keys (es @ (MAPPING_END # rest)) (k # st) k = i @ closed_keys (MAPPING_END # rest) (k # st) k1"
    unfolding balanced_def by blast
  then have "closed_keys ((MAPPING_START # es @ [MAPPING_END]) @ rest) st k
      = (i @ [k]) @ closed_keys rest st k1"
    by simp
  then show "\<exists>inner k'. closed_keys ((MAPPING_START # es @ [MAPPING_END]) @ rest) st k
      = inner @ closed_keys rest st k'"
    by blast
qed

lemma balanced_string_doc: "balanced (string_doc key v)"
  by (cases v) (simp_all add: string_doc_def balanced_Nil balanced_Cons_plain balanced_quoted)

lemma balanced_passthrough_doc: "balanced (passthrough_doc pt)"
proof (induction pt)
  case Nil
  then show ?case by (simp add: passthrough_doc_def balanced_Nil)
next
  case (Cons kv pt)
  obtain k v where kv: "kv = (k, v)" by (cases kv)
  have "balanced (SCALAR_PLAIN k # SCALAR_QUOTED v # passthrough_doc pt)"
    using Cons by (intro balanced_Cons_plain balanced_Cons_quoted)
  then show ?case by (simp add: kv passthrough_doc_def)
qed

lemma balanced_backend_settings_doc: "balanced (backend_settings_doc b)"
proof -
  let ?u = "case uuid (nm b) of None \<Rightarrow> [] | Some u \<Rightarrow> [SCALAR_PLAIN ''uuid'', SCALAR_PLAIN u]"
  let ?n = "case name (nm b) of None \<Rightarrow> [] | Some n \<Rightarrow> [SCALAR_PLAIN ''name'', SCALAR_QUOTED n]"
  let ?p = "if passthrough (nm b) = [] then []
            else [SCALAR_PLAIN ''passthrough'', MAPPING_START]
                 @ passthrough_doc (passthrough (nm b)) @ [MAPPING_END]"
  have u: "balanced ?u"
    by (cases "uuid (nm b)") (simp_all add: balanced_Nil balanced_Cons_plain balanced_plain)
  have n: "balanced ?n"
    by (cases "name (nm b)") (simp_all add: balanced_Nil balanced_Cons_plain balanced_quoted)
  have p: "balanced ?p"
    using balanced_Cons_plain [OF balanced_mapping [OF balanced_passthrough_doc]]
    by (simp add: balanced_Nil)
  have "balanced (SCALAR_PLAIN ''networkmanager'' # MAPPING_START # (?u @ ?n @ ?p) @ [MAPPING_END])"
    by (intro balanced_Cons_plain balanced_mapping balanced_append u n p)
  then show ?thesis
    by (simp add: backend_settings_doc_def balanced_Nil)
qed

lemma balanced_match_doc: "balanced (match_doc d)"
  using balanced_Cons_plain [OF balanced_mapping [OF balanced_string_doc]]
  by (simp add: match_doc_def balanced_Nil)

lemma balanced_wakeonlan_doc: "balanced (wakeonlan_doc d)"
  by (simp add: wakeonlan_doc_def balanced_Nil balanced_Cons_plain balanced_plain)

lemma balanced_modem_doc: "balanced (modem_doc m)"
  unfolding modem_doc_def
  by (intro balanced_append balanced_string_doc)
     (simp add: balanced_Nil balanced_Cons_plain balanced_plain)

lemma balanced_access_point_doc: "balanced (access_point_doc t ap)"
proof -
  let ?h = "if hidden ap then [SCALAR_PLAIN ''hidden'', SCALAR_PLAIN ''true''] else []"
  let ?m = "[SCALAR_PLAIN ''mode'',
        SCALAR_PLAIN (if mode ap = NETPLAN_WIFI_MODE_OTHER then ''infrastructure''
                      else netplan_wifi_mode_to_str t (mode ap))]"
  have h: "balanced ?h" by (simp add: balanced_Nil balanced_Cons_plain balanced_plain)
  have m: "balanced ?m" by (intro balanced_Cons_plain balanced_plain)
  have "balanced (SCALAR_QUOTED (ssid ap) # MAPPING_START
      # (?h @ ?m @ backend_settings_doc (ap_backend_settings ap)) @ [MAPPING_END])"
    by (intro balanced_Cons_quoted balanced_mapping balanced_append h m
          balanced_backend_settings_doc)
  then show ?thesis by (simp add: access_point_doc_def)
qed

lemma balanced_concat: "(\<And>x. x \<in> set xs \<Longrightarrow> balanced x) \<Longrightarrow> balanced (concat xs)"
  by (induction xs) (simp_all add: balanced_Nil balanced_append)

lemma balanced_access_points_doc: "balanced (access_points_doc t aps)"
proof -
  have "balanced (concat (map (access_point_doc t) aps))"
    by (rule balanced_concat) (auto simp: balanced_access_point_doc)
  from balanced_Cons_plain [OF balanced_mapping [OF this]] show ?thesis
    by (simp add: access_points_doc_def)
qed

lemma closing_order:
  assumes "balanced mid"
  shows "\<exists>inner. closed_keys (skeleton_doc t d @ mid @ closing_doc) [] [] =
     inner @ [id' d, netplan_def_type_to_str t (type d), ''network'', []]"
proof -
  from assms obtain i k1 where
    "closed_keys (mid @ closing_doc)
       [id' d, netplan_def_type_to_str t (type d), ''network'', []]
       (netplan_backend_to_name t (backend d))
     = i @ closed_keys closing_doc
             [id' d, netplan_def_type_to_str t (type d), ''network'', []] k1"
    unfolding balanced_def by blast
  then have "closed_keys (skeleton_doc t d @ mid @ closing_doc) [] [] =
     i @ [id' d, netplan_def_type_to_str t (type d), ''network'', []]"
    by (simp add: skeleton_doc_def closing_doc_def)
  then show ?thesis by blast
qed

lemma balanced_fields:
  "balanced (match_doc d @ wakeonlan_doc d @ modem_doc (modem_params d)
     @ (if type d = NETPLAN_DEF_TYPE_WIFI then access_points_doc t (access_points d) else [])
     @ backend_settings_doc (backend_settings d))"
  by (intro balanced_append balanced_match_doc balanced_wakeonlan_doc balanced_modem_doc
        balanced_backend_settings_doc)
     (simp add: balanced_Nil balanced_access_points_doc)

lemma tracksI:
  assumes "\<And>s. fails (snd (f s)) = fails s"
    and "\<And>s. \<forall>j<length m. \<not> fails s (calls s + j) \<Longrightarrow>
           fst (f s) \<and> calls (snd (f s)) = calls s + length m
           \<and> events (snd (f s)) = events s @ map fst m"
    and "\<And>s k. k < length m \<Longrightarrow> snd (m ! k) \<Longrightarrow> first_failure s k \<Longrightarrow>
           \<not> fst (f s) \<and> calls (snd (f s)) = calls s + Suc k
           \<and> events (snd (f s)) = events s @ take k (map fst m)"
  shows "tracks f m"
  unfolding tracks_def using assms by blast

lemma tracks_fails: "tracks f m \<Longrightarrow> fails (snd (f s)) = fails s"
  unfolding tracks_def by blast

lemma tracks_ok:
  "tracks f m \<Longrightarrow> \<forall>j<length m. \<not> fails s (calls s + j) \<Longrightarrow>
   fst (f s) \<and> calls (snd (f s)) = calls s + length m
   \<and> events (snd (f s)) = events s @ map fst m"
  unfolding tracks_def by blast

lemma tracks_abort:
  "tracks f m \<Longrightarrow> k < length m \<Longrightarrow> snd (m ! k) \<Longrightarrow> first_failure s k \<Longrightarrow>
   \<not> fst (f s) \<and> calls (snd (f s)) = calls s + Suc k
   \<and> events (snd (f s)) = events s @ take k (map fst m)"
  unfolding tracks_def by blast

lemma tracks_emit: "tracks (yaml_emitter_emit e) [(e, True)]"
  by (rule tracksI) (simp_all add: yaml_emitter_emit_def first_failure_def)

lemma tracks_steps_Nil: "tracks (steps []) []"
  by (rule tracksI) simp_all

lemma tracks_steps_Cons:
  assumes f: "tracks f m1" and fs: "tracks (steps fs) m2"
  shows "tracks (steps (f # fs)) (m1 @ m2)"
proof (rule tracksI)
  fix s :: world
  obtain ok1 s1 where r: "f s = (ok1, s1)" by (cases "f s")
  have f1: "fails s1 = fails s" using tracks_fails [OF f, of s] r by simp
  show "fails (snd (steps (f # fs) s)) = fails s"
    using tracks_fails [OF fs, of s1] f1 r by simp
next
  fix s :: world
  assume ok: "\<forall>j<length (m1 @ m2). \<not> fails s (calls s + j)"
  obtain ok1 s1 where r: "f s = (ok1, s1)" by (cases "f s")
  have "\<forall>j<length m1. \<not> fails s (calls s + j)" using ok by simp
  from tracks_ok [OF f this] r
  have 1: "ok1" "calls s1 = calls s + length m1" "events s1 = events s @ map fst m1"
    by simp_all
  have f1: "fails s1 = fails s" using tracks_fails [OF f, of s] r by simp
  have "\<forall>j<length m2. \<not> fails s1 (calls s1 + j)"
  proof (intro allI impI)
    fix j assume "j < length m2"
    then have "length m1 + j < length (m1 @ m2)" by simp
    with ok have "\<not> fails s (calls s + (length m1 + j))" by blast
    then show "\<not> fails s1 (calls s1 + j)" by (simp add: f1 1 add.assoc)
  qed
  from tracks_ok [OF fs this]
  show "fst (steps (f # fs) s) \<and> calls (snd (steps (f # fs) s)) = calls s + length (m1 @ m2)
      \<and> events (snd (steps (f # fs) s)) = events s @ map fst (m1 @ m2)"
    using r 1 by simp
next
  fix s :: world and k
  assume k: "k < length (m1 @ m2)" and strict: "snd ((m1 @ m2) ! k)" and ff: "first_failure s k"
  obtain ok1 s1 where r: "f s = (ok1, s1)" by (cases "f s")
  show "\<not> fst (steps (f # fs) s) \<and> calls (snd (steps (f # fs) s)) = calls s + Suc k
      \<and> events (snd (steps (f # fs) s)) = events s @ take k (map fst (m1 @ m2))"
  proof (cases "k < length m1")
    case True
    then have "snd (m1 ! k)" using strict by (simp add: nth_append)
    from tracks_abort [OF f True this ff] r
    have "\<not> ok1" "calls s1 = calls s + Suc k" "events s1 = events s @ take k (map fst m1)"
      by simp_all
    then show ?thesis using r True by simp
  next
    case False
    let ?k = "k - length m1"
    have "\<forall>j<length m1. \<not> fails s (calls s + j)"
      using ff False unfolding first_failure_def by simp
    from tracks_ok [OF f this] r
    have 1: "ok1" "calls s1 = calls s + length m1" "events s1 = events s @ map fst m1"
      by simp_all
    have f1: "fails s1 = fails s" using tracks_fails [OF f, of s] r by simp
    have k2: "?k < length m2" using k False by simp
    have s2: "snd (m2 ! ?k)" using strict False by (simp add: nth_append)
    have ff2: "first_failure s1 ?k"
      unfolding first_failure_def
    proof (intro conjI allI impI)
      show "fails s1 (calls s1 + ?k)"
        using ff False unfolding first_failure_def by (simp add: f1 1)
    next
      fix j assume "j < ?k"
      then have "length m1 + j < k" by simp
      with ff have "\<not> fails s (calls s + (length m1 + j))"
        unfolding first_failure_def by blast
      then show "\<not> fails s1 (calls s1 + j)" by (simp add: f1 1 add.assoc)
    qed
    from tracks_abort [OF fs k2 s2 ff2]
    show ?thesis using r 1 False by simp
  qed
qed

lemma steps_nested_fun: "steps (steps fs # gs) = steps (fs @ gs)"
  by (rule ext) (simp add: steps_append)

lemma tracks_steps_append:
  assumes "tracks (steps fs) m1" and "tracks (steps gs) m2"
  shows "tracks (steps (fs @ gs)) (m1 @ m2)"
  using tracks_steps_Cons [OF assms] by (simp only: steps_nested_fun)

lemma tracks_single: "tracks f m \<Longrightarrow> tracks (steps [f]) m"
  using tracks_steps_Cons [OF _ tracks_steps_Nil, of f m] by (simp del: steps.simps)

lemma tracks_emits: "tracks (steps (map yaml_emitter_emit es)) (strictly es)"
proof (induction es)
  case Nil
  then show ?case by (simp only: strictly_def list.map tracks_steps_Nil)
next
  case (Cons e es)
  from tracks_steps_Cons [OF tracks_emit [of e] Cons] show ?case
    by (simp add: strictly_def del: steps.simps)
qed

lemma map_fst_strictly [simp]: "map fst (strictly es) = es"
  by (simp add: strictly_def comp_def)

lemma map_fst_leniently [simp]: "map fst (leniently es) = es"
  by (simp add: leniently_def comp_def)

lemma length_strictly [simp]: "length (strictly es) = length es"
  by (simp add: strictly_def)

lemma length_leniently [simp]: "length (leniently es) = length es"
  by (simp add: leniently_def)

lemma strictly_append: "strictly (a @ b) = strictly a @ strictly b"
  by (simp add: strictly_def)

lemma leniently_nth: "k < length es \<Longrightarrow> \<not> snd (leniently es ! k)"
  by (simp add: leniently_def)

lemma tracks_lenient:
  assumes "\<And>s. fails (snd (g s)) = fails s"
    and "\<And>s. \<forall>j<length es. \<not> fails s (calls s + j) \<Longrightarrow>
           fst (g s) \<and> calls (snd (g s)) = calls s + length es
           \<and> events (snd (g s)) = events s @ es"
  shows "tracks g (leniently es)"
proof (rule tracksI)
  fix s :: world and k
  assume "k < length (leniently es)" and "snd (leniently es ! k)"
  then show "\<not> fst (g s) \<and> calls (snd (g s)) = calls s + Suc k
      \<and> events (snd (g s)) = events s @ take k (map fst (leniently es))"
    using leniently_nth [of k es] by simp
qed (use assms in simp_all)

lemma tracks_discard_result:
  assumes "tracks f m"
  shows "tracks (discard_result f) (leniently (map fst m))"
proof (rule tracks_lenient)
  fix s :: world
  show "fails (snd (discard_result f s)) = fails s"
    using tracks_fails [OF assms, of s] by (simp add: discard_result_def)
  assume "\<forall>j<length (map fst m). \<not> fails s (calls s + j)"
  then have "\<forall>j<length m. \<not> fails s (calls s + j)" by simp
  from tracks_ok [OF assms this]
  show "fst (discard_result f s)
      \<and> calls (snd (discard_result f s)) = calls s + length (map fst m)
      \<and> events (snd (discard_result f s)) = events s @ map fst m"
    by (simp add: discard_result_def)
qed

lemma tracks_call_void_silent:
  assumes "\<And>s. fails (g s) = fails s" "\<And>s. calls (g s) = calls s"
    "\<And>s. events (g s) = events s"
  shows "tracks (call_void g) []"
  by (rule tracksI) (simp_all add: call_void_def assms)

lemma tracks_g_warning: "tracks (call_void (g_warning w)) []"
  by (rule tracks_call_void_silent) (simp_all add: g_warning_def)

lemma tracks_delete: "tracks (call_void yaml_emitter_delete) []"
  by (rule tracks_call_void_silent) (simp_all add: yaml_emitter_delete_def)

lemma tracks_plain: "tracks (YAML_SCALAR_PLAIN x) (strictly [SCALAR_PLAIN x])"
  by (simp add: YAML_SCALAR_PLAIN_def strictly_def tracks_emit)

lemma tracks_quoted: "tracks (YAML_SCALAR_QUOTED x) (strictly [SCALAR_QUOTED x])"
  by (simp add: YAML_SCALAR_QUOTED_def strictly_def tracks_emit)

lemma tracks_open: "tracks YAML_MAPPING_OPEN (strictly [MAPPING_START])"
  by (simp add: YAML_MAPPING_OPEN_def strictly_def tracks_emit)

lemma tracks_close: "tracks YAML_MAPPING_CLOSE (strictly [MAPPING_END])"
  by (simp add: YAML_MAPPING_CLOSE_def strictly_def tracks_emit)

lemma tracks_two:
  assumes "tracks f (strictly a)" and "tracks g (strictly b)"
  shows "tracks (steps [f, g]) (strictly (a @ b))"
  using tracks_steps_Cons [OF assms(1) tracks_single [OF assms(2)]]
  by (simp add: strictly_append del: steps.simps)

lemma tracks_YAML_STRING: "tracks (YAML_STRING key v) (strictly (string_doc key v))"
proof (cases v)
  case None
  then show ?thesis
    using tracks_steps_Nil by (simp add: YAML_STRING_def string_doc_def strictly_def del: steps.simps)
next
  case (Some x)
  show ?thesis
    using tracks_two [OF tracks_plain [of key] tracks_quoted [of x]]
    by (simp add: YAML_STRING_def string_doc_def Some del: steps.simps)
qed

lemma tracks_YAML_STRING_PLAIN:
  "tracks (YAML_STRING_PLAIN key (Some x)) (strictly [SCALAR_PLAIN key, SCALAR_PLAIN x])"
  using tracks_two [OF tracks_plain [of key] tracks_plain [of x]]
  by (simp add: YAML_STRING_PLAIN_def del: steps.simps)

lemma fails_foreach: "fails (g_datalist_foreach pt passthrough_handler s) = fails s"
  using keeps_foreach [of pt] by (simp add: keeps_def)

lemma passthrough_handler_no_failure:
  assumes "\<forall>j<2. \<not> fails s (calls s + j)"
  shows "calls (passthrough_handler k v s) = calls s + 2
     \<and> events (passthrough_handler k v s) = events s @ [SCALAR_PLAIN k, SCALAR_QUOTED v]"
proof -
  have "tracks (steps [YAML_SCALAR_PLAIN k, YAML_SCALAR_QUOTED v])
          (strictly ([SCALAR_PLAIN k] @ [SCALAR_QUOTED v]))"
    by (rule tracks_two [OF tracks_plain tracks_quoted])
  from tracks_ok [OF this, of s] assms show ?thesis
    by (simp add: passthrough_handler_def del: steps.simps)
qed

lemma foreach_no_failure:
  "\<forall>j<length (passthrough_doc pt). \<not> fails s (calls s + j) \<Longrightarrow>
   calls (g_datalist_foreach pt passthrough_handler s) = calls s + length (passthrough_doc pt)
   \<and> events (g_datalist_foreach pt passthrough_handler s) = events s @ passthrough_doc pt"
proof (induction pt arbitrary: s)
  case Nil
  then show ?case by (simp add: passthrough_doc_def)
next
  case (Cons kv pt)
  obtain k v where kv: "kv = (k, v)" by (cases kv)
  let ?s1 = "passthrough_handler k v s"
  have len: "length (passthrough_doc (kv # pt)) = 2 + length (passthrough_doc pt)"
    by (simp add: kv passthrough_doc_def)
  have "\<forall>j<2. \<not> fails s (calls s + j)" using Cons.prems len by simp
  note h = passthrough_handler_no_failure [OF this, of k v]
  have f1: "fails ?s1 = fails s"
    using keeps_passthrough_handler [of k v] by (simp add: keeps_def)
  have "\<forall>j<length (passthrough_doc pt). \<not> fails ?s1 (calls ?s1 + j)"
  proof (intro allI impI)
    fix j assume "j < length (passthrough_doc pt)"
    then have "2 + j < length (passthrough_doc (kv # pt))" using len by simp
    with Cons.prems have "\<not> fails s (calls s + (2 + j))" by blast
    then show "\<not> fails ?s1 (calls ?s1 + j)" using h by (simp add: f1 add.assoc)
  qed
  from Cons.IH [OF this] show ?case
    using h by (simp add: kv passthrough_doc_def)
qed

lemma tracks_foreach:
  "tracks (call_void (g_datalist_foreach pt passthrough_handler)) (leniently (passthrough_doc pt))"
  by (rule tracks_lenient) (simp_all add: call_void_def fails_foreach foreach_no_failure)

lemma map_fst_marked_backend_settings:
  "map fst (marked_backend_settings b) = backend_settings_doc b"
  by (simp add: marked_backend_settings_def backend_settings_doc_def)

lemma map_fst_marked_access_point:
  "map fst (marked_access_point t ap) = access_point_doc t ap"
  by (simp add: marked_access_point_def access_point_doc_def map_fst_marked_backend_settings)

lemma map_fst_marked_access_points:
  "map fst (concat (map (marked_access_point t) aps)) = concat (map (access_point_doc t) aps)"
  by (induction aps) (simp_all add: map_fst_marked_access_point)

lemma map_fst_marked_document: "map fst (marked_document t d) = document t d"
  by (simp add: marked_document_def document_def map_fst_marked_backend_settings
        map_fst_marked_access_points access_points_doc_def)

lemma tracks_Nil_list: "tracks (steps []) (strictly [])"
  using tracks_steps_Nil by (simp add: strictly_def del: steps.simps)

lemma tracks_write_backend_settings:
  "tracks (write_backend_settings b) (marked_backend_settings b)"
proof (cases "uuid (nm b) = None \<and> name (nm b) = None \<and> passthrough (nm b) = []")
  case True
  then show ?thesis
    using tracks_steps_Nil
    by (simp add: write_backend_settings_def marked_backend_settings_def del: steps.simps)
next
  case False
  let ?pt = "passthrough (nm b)"
  let ?U = "case uuid (nm b) of None \<Rightarrow> [] | Some u \<Rightarrow> [SCALAR_PLAIN ''uuid'', SCALAR_PLAIN u]"
  let ?N = "case name (nm b) of None \<Rightarrow> [] | Some n \<Rightarrow> [SCALAR_PLAIN ''name'', SCALAR_QUOTED n]"
  let ?P = "if ?pt = [] then []
            else strictly [SCALAR_PLAIN ''passthrough'', MAPPING_START]
                 @ leniently (passthrough_doc ?pt) @ strictly [MAPPING_END]"
  have a: "tracks (steps [YAML_SCALAR_PLAIN ''networkmanager'', YAML_MAPPING_OPEN])
      (strictly ([SCALAR_PLAIN ''networkmanager''] @ [MAPPING_START]))"
    by (rule tracks_two [OF tracks_plain tracks_open])
  have u: "tracks (steps (case uuid (nm b) of
        Some u \<Rightarrow> [YAML_SCALAR_PLAIN ''uuid'', YAML_SCALAR_PLAIN u] | None \<Rightarrow> [])) (strictly ?U)"
    using tracks_two [OF tracks_plain tracks_plain] tracks_Nil_list
    by (cases "uuid (nm b)") (simp_all del: steps.simps)
  have n: "tracks (steps (case name (nm b) of
        Some n \<Rightarrow> [YAML_SCALAR_PLAIN ''name'', YAML_SCALAR_QUOTED n] | None \<Rightarrow> [])) (strictly ?N)"
    using tracks_two [OF tracks_plain tracks_quoted] tracks_Nil_list
    by (cases "name (nm b)") (simp_all del: steps.simps)
  have p: "tracks (steps (if ?pt \<noteq> [] then
        [YAML_SCALAR_PLAIN ''passthrough'', YAML_MAPPING_OPEN,
         call_void (g_datalist_foreach ?pt passthrough_handler), YAML_MAPPING_CLOSE]
      else [])) ?P"
  proof (cases "?pt = []")
    case True
    then show ?thesis using tracks_steps_Nil by (simp del: steps.simps)
  next
    case False
    have "tracks (steps [YAML_SCALAR_PLAIN ''passthrough'', YAML_MAPPING_OPEN,
         call_void (g_datalist_foreach ?pt passthrough_handler), YAML_MAPPING_CLOSE])
       (strictly [SCALAR_PLAIN ''passthrough''] @ strictly [MAPPING_START]
        @ leniently (passthrough_doc ?pt) @ strictly [MAPPING_END])"
      by (intro tracks_steps_Cons tracks_single tracks_plain tracks_open tracks_foreach
            tracks_close)
    then show ?thesis using False by (simp add: strictly_def del: steps.simps)
  qed
  have c: "tracks (steps [YAML_MAPPING_CLOSE]) (strictly [MAPPING_END])"
    by (rule tracks_single [OF tracks_close])
  note all = tracks_steps_append [OF a tracks_steps_append [OF u
      tracks_steps_append [OF n tracks_steps_append [OF p c]]]]
  have cond: "non_null (uuid (nm b)) \<or> non_null (name (nm b)) \<or> ?pt \<noteq> []"
    using False by (auto simp: non_null_iff)
  have m: "marked_backend_settings b =
      strictly ([SCALAR_PLAIN ''networkmanager''] @ [MAPPING_START])
      @ strictly ?U @ strictly ?N @ ?P @ strictly [MAPPING_END]"
    using False unfolding marked_backend_settings_def
    by (simp only: if_False) (simp add: strictly_def)
  show ?thesis
    using all by (simp only: write_backend_settings_def cond if_True m)
qed

lemma tracks_write_access_point:
  "tracks (write_access_point t d ap) (marked_access_point t ap)"
proof -
  let ?H = "if hidden ap then [SCALAR_PLAIN ''hidden'', SCALAR_PLAIN ''true''] else []"
  let ?V = "[SCALAR_PLAIN (if mode ap = NETPLAN_WIFI_MODE_OTHER then ''infrastructure''
                           else netplan_wifi_mode_to_str t (mode ap))]"
  have a: "tracks (steps [YAML_SCALAR_QUOTED (ssid ap), YAML_MAPPING_OPEN])
      (strictly ([SCALAR_QUOTED (ssid ap)] @ [MAPPING_START]))"
    by (rule tracks_two [OF tracks_quoted tracks_open])
  have h: "tracks (steps (if hidden ap
        then [YAML_SCALAR_PLAIN ''hidden'', YAML_SCALAR_PLAIN ''true''] else [])) (strictly ?H)"
    using tracks_two [OF tracks_plain tracks_plain] tracks_Nil_list
    by (cases "hidden ap") (simp_all del: steps.simps)
  have k: "tracks (steps [YAML_SCALAR_PLAIN ''mode'']) (strictly [SCALAR_PLAIN ''mode''])"
    by (rule tracks_single [OF tracks_plain])
  have v: "tracks (steps (if mode ap \<noteq> NETPLAN_WIFI_MODE_OTHER then
             [YAML_SCALAR_PLAIN (netplan_wifi_mode_to_str t (mode ap))]
           else
             [call_void (g_warning (unsupported_mode_warning (id' d) (ssid ap))),
              YAML_SCALAR_PLAIN ''infrastructure''])) (strictly ?V)"
  proof (cases "mode ap = NETPLAN_WIFI_MODE_OTHER")
    case True
    have "tracks (steps [call_void (g_warning (unsupported_mode_warning (id' d) (ssid ap))),
              YAML_SCALAR_PLAIN ''infrastructure'']) ([] @ strictly [SCALAR_PLAIN ''infrastructure''])"
      by (intro tracks_steps_Cons tracks_single tracks_g_warning tracks_plain)
    then show ?thesis using True by (simp del: steps.simps)
  next
    case False
    then show ?thesis using tracks_single [OF tracks_plain] by (simp del: steps.simps)
  qed
  have e: "tracks (steps [write_backend_settings (ap_backend_settings ap), YAML_MAPPING_CLOSE])
      (marked_backend_settings (ap_backend_settings ap) @ strictly [MAPPING_END])"
    by (intro tracks_steps_Cons tracks_single tracks_write_backend_settings tracks_close)
  note all = tracks_steps_append [OF a tracks_steps_append [OF h
      tracks_steps_append [OF k tracks_steps_append [OF v e]]]]
  have m: "marked_access_point t ap =
      strictly ([SCALAR_QUOTED (ssid ap)] @ [MAPPING_START]) @ strictly ?H
      @ strictly [SCALAR_PLAIN ''mode''] @ strictly ?V
      @ marked_backend_settings (ap_backend_settings ap) @ strictly [MAPPING_END]"
    by (simp add: marked_access_point_def strictly_def)
  show ?thesis using all by (simp only: write_access_point_def m)
qed

lemma tracks_access_points_loop:
  "tracks (steps (map (write_access_point t d) aps)) (concat (map (marked_access_point t) aps))"
proof (induction aps)
  case Nil
  then show ?case using tracks_steps_Nil by (simp del: steps.simps)
next
  case (Cons ap aps)
  from tracks_steps_Cons [OF tracks_write_access_point [of t d ap] Cons] show ?case
    by (simp del: steps.simps)
qed

lemma tracks_write_access_points:
  "tracks (write_access_points t d)
     (strictly [SCALAR_PLAIN ''access-points'', MAPPING_START]
      @ concat (map (marked_access_point t) (access_points d))
      @ strictly [MAPPING_END])"
proof -
  have a: "tracks (steps [YAML_SCALAR_PLAIN ''access-points'', YAML_MAPPING_OPEN])
      (strictly ([SCALAR_PLAIN ''access-points''] @ [MAPPING_START]))"
    by (rule tracks_two [OF tracks_plain tracks_open])
  from tracks_steps_append [OF a tracks_steps_append [OF tracks_access_points_loop
      tracks_single [OF tracks_close]]]
  show ?thesis by (simp add: write_access_points_def del: steps.simps)
qed

lemma tracks_write_match:
  "tracks (write_match d) (strictly (match_doc (d\<lparr>has_match := True\<rparr>)))"
proof -
  have "tracks (steps [YAML_SCALAR_PLAIN ''match'', YAML_MAPPING_OPEN,
            YAML_STRING ''name'' (original_name (match d)), YAML_MAPPING_CLOSE])
     (strictly [SCALAR_PLAIN ''match''] @ strictly [MAPPING_START]
      @ strictly (string_doc ''name'' (original_name (match d))) @ strictly [MAPPING_END])"
    by (intro tracks_steps_Cons tracks_single tracks_plain tracks_open tracks_YAML_STRING
          tracks_close)
  then show ?thesis
    by (simp add: write_match_def match_doc_def strictly_def del: steps.simps)
qed

lemma write_netplan_conf_try_started:
  "write_netplan_conf_try t d output s = steps (document_steps t d) (emitter_started output s)"
  unfolding write_netplan_conf_try_def document_steps_def YAML_OUT_START_def emitter_started_def
  by (simp only: append_Cons append_Nil steps_nested steps_call_void)

lemma tracks_YAML_OUT_STOP: "tracks YAML_OUT_STOP (strictly [MAPPING_END, DOCUMENT_END, STREAM_END])"
proof -
  have "tracks (steps [YAML_MAPPING_CLOSE, yaml_emitter_emit DOCUMENT_END,
          yaml_emitter_emit STREAM_END, call_void yaml_emitter_delete])
     (strictly [MAPPING_END] @ [(DOCUMENT_END, True)] @ [(STREAM_END, True)] @ [])"
    by (intro tracks_steps_Cons tracks_single tracks_close tracks_emit tracks_delete)
  then show ?thesis by (simp add: YAML_OUT_STOP_def strictly_def del: steps.simps)
qed

lemma tracks_document_steps: "tracks (steps (document_steps t d)) (marked_document t d)"
proof -
  let ?mp = "modem_params d"
  have sk: "tracks (steps [yaml_emitter_emit STREAM_START,
      yaml_emitter_emit DOCUMENT_START,
      YAML_MAPPING_OPEN,
      YAML_SCALAR_PLAIN ''network'',
      YAML_MAPPING_OPEN,
      YAML_STRING_PLAIN ''version'' (Some ''2''),
      YAML_SCALAR_PLAIN (netplan_def_type_to_str t (type d)),
      YAML_MAPPING_OPEN,
      YAML_SCALAR_PLAIN (id' d),
      YAML_MAPPING_OPEN,
      YAML_STRING_PLAIN ''renderer'' (Some (netplan_backend_to_name t (backend d)))])
    (strictly (skeleton_doc t d))"
  proof -
    have "tracks (steps [yaml_emitter_emit STREAM_START,
      yaml_emitter_emit DOCUMENT_START,
      YAML_MAPPING_OPEN,
      YAML_SCALAR_PLAIN ''network'',
      YAML_MAPPING_OPEN,
      YAML_STRING_PLAIN ''version'' (Some ''2''),
      YAML_SCALAR_PLAIN (netplan_def_type_to_str t (type d)),
      YAML_MAPPING_OPEN,
      YAML_SCALAR_PLAIN (id' d),
      YAML_MAPPING_OPEN,
      YAML_STRING_PLAIN ''renderer'' (Some (netplan_backend_to_name t (backend d)))])
     ([(STREAM_START, True)] @ [(DOCUMENT_START, True)] @ strictly [MAPPING_START]
      @ strictly [SCALAR_PLAIN ''network''] @ strictly [MAPPING_START]
      @ strictly [SCALAR_PLAIN ''version'', SCALAR_PLAIN ''2'']
      @ strictly [SCALAR_PLAIN (netplan_def_type_to_str t (type d))] @ strictly [MAPPING_START]
      @ strictly [SCALAR_PLAIN (id' d)] @ strictly [MAPPING_START]
      @ strictly [SCALAR_PLAIN ''renderer'',
                  SCALAR_PLAIN (netplan_backend_to_name t (backend d))])"
      by (intro tracks_steps_Cons tracks_single tracks_emit tracks_open tracks_plain
            tracks_YAML_STRING_PLAIN)
    then show ?thesis by (simp add: skeleton_doc_def strictly_def del: steps.simps)
  qed
  have m: "tracks (steps (if has_match d then [discard_result (write_match d)] else []))
      (leniently (match_doc d))"
  proof (cases "has_match d")
    case True
    have "tracks (discard_result (write_match d))
        (leniently (map fst (strictly (match_doc (d\<lparr>has_match := True\<rparr>)))))"
      by (rule tracks_discard_result [OF tracks_write_match])
    from tracks_single [OF this] show ?thesis
      using True by (simp add: match_doc_def del: steps.simps)
  next
    case False
    then show ?thesis
      using tracks_steps_Nil by (simp add: match_doc_def leniently_def del: steps.simps)
  qed
  have w: "tracks (steps (if wake_on_lan d
      then [YAML_STRING_PLAIN ''wakeonlan'' (Some ''true'')] else [])) (strictly (wakeonlan_doc d))"
    using tracks_single [OF tracks_YAML_STRING_PLAIN] tracks_Nil_list
    by (cases "wake_on_lan d") (simp_all add: wakeonlan_doc_def del: steps.simps)
  have ac: "tracks (steps (if auto_config ?mp
      then [YAML_STRING_PLAIN ''auto-config'' (Some ''true'')] else []))
      (strictly (if auto_config ?mp
         then [SCALAR_PLAIN ''auto-config'', SCALAR_PLAIN ''true''] else []))"
    using tracks_single [OF tracks_YAML_STRING_PLAIN] tracks_Nil_list
    by (cases "auto_config ?mp") (simp_all del: steps.simps)
  have st: "tracks (steps [YAML_STRING ''apn'' (apn ?mp),
             YAML_STRING ''device-id'' (device_id ?mp),
             YAML_STRING ''network-id'' (network_id ?mp),
             YAML_STRING ''pin'' (pin ?mp),
             YAML_STRING ''sim-id'' (sim_id ?mp),
             YAML_STRING ''sim-operator-id'' (sim_operator_id ?mp)])
      (strictly (string_doc ''apn'' (apn ?mp)) @ strictly (string_doc ''device-id'' (device_id ?mp))
       @ strictly (string_doc ''network-id'' (network_id ?mp))
       @ strictly (string_doc ''pin'' (pin ?mp)) @ strictly (string_doc ''sim-id'' (sim_id ?mp))
       @ strictly (string_doc ''sim-operator-id'' (sim_operator_id ?mp)))"
    by (intro tracks_steps_Cons tracks_single tracks_YAML_STRING)
  have ap: "tracks (steps (if type d = NETPLAN_DEF_TYPE_WIFI then [write_access_points t d] else []))
      (if type d = NETPLAN_DEF_TYPE_WIFI
       then strictly [SCALAR_PLAIN ''access-points'', MAPPING_START]
            @ concat (map (marked_access_point t) (access_points d))
            @ strictly [MAPPING_END]
       else [])"
    using tracks_single [OF tracks_write_access_points] tracks_steps_Nil
    by (cases "type d = NETPLAN_DEF_TYPE_WIFI") (simp_all del: steps.simps)
  note fields = tracks_steps_append [OF m tracks_steps_append [OF w
      tracks_steps_append [OF ac tracks_steps_append [OF st ap]]]]
  have fl: "tracks (steps (if type d = NETPLAN_DEF_TYPE_OTHER then []
        else
          (if has_match d then [discard_result (write_match d)] else [])
          @ (if wake_on_lan d then [YAML_STRING_PLAIN ''wakeonlan'' (Some ''true'')] else [])
          @ (if auto_config ?mp
             then [YAML_STRING_PLAIN ''auto-config'' (Some ''true'')] else [])
          @ [YAML_STRING ''apn'' (apn ?mp),
             YAML_STRING ''device-id'' (device_id ?mp),
             YAML_STRING ''network-id'' (network_id ?mp),
             YAML_STRING ''pin'' (pin ?mp),
             YAML_STRING ''sim-id'' (sim_id ?mp),
             YAML_STRING ''sim-operator-id'' (sim_operator_id ?mp)]
          @ (if type d = NETPLAN_DEF_TYPE_WIFI then [write_access_points t d] else [])))
     (if type d = NETPLAN_DEF_TYPE_OTHER then []
        else leniently (match_doc d)
             @ strictly (wakeonlan_doc d @ modem_doc ?mp)
             @ (if type d = NETPLAN_DEF_TYPE_WIFI
                then strictly [SCALAR_PLAIN ''access-points'', MAPPING_START]
                     @ concat (map (marked_access_point t) (access_points d))
                     @ strictly [MAPPING_END]
                else []))"
  proof (cases "type d = NETPLAN_DEF_TYPE_OTHER")
    case True
    then show ?thesis using tracks_steps_Nil by (simp only: refl if_True)
  next
    case False
    have "strictly (wakeonlan_doc d @ modem_doc ?mp) =
        strictly (wakeonlan_doc d)
        @ strictly (if auto_config ?mp
            then [SCALAR_PLAIN ''auto-config'', SCALAR_PLAIN ''true''] else [])
        @ strictly (string_doc ''apn'' (apn ?mp)) @ strictly (string_doc ''device-id'' (device_id ?mp))
        @ strictly (string_doc ''network-id'' (network_id ?mp))
        @ strictly (string_doc ''pin'' (pin ?mp)) @ strictly (string_doc ''sim-id'' (sim_id ?mp))
        @ strictly (string_doc ''sim-operator-id'' (sim_operator_id ?mp))"
      by (simp add: modem_doc_def strictly_append)
    then show ?thesis
      using fields False by (simp only: if_False append_assoc)
  qed
  have en: "tracks (steps [write_backend_settings (backend_settings d),
        YAML_MAPPING_CLOSE, YAML_MAPPING_CLOSE, YAML_MAPPING_CLOSE, YAML_OUT_STOP])
     (marked_backend_settings (backend_settings d) @ strictly closing_doc)"
  proof -
    have "tracks (steps [write_backend_settings (backend_settings d),
        YAML_MAPPING_CLOSE, YAML_MAPPING_CLOSE, YAML_MAPPING_CLOSE, YAML_OUT_STOP])
     (marked_backend_settings (backend_settings d) @ strictly [MAPPING_END]
      @ strictly [MAPPING_END] @ strictly [MAPPING_END]
      @ strictly [MAPPING_END, DOCUMENT_END, STREAM_END])"
      by (intro tracks_steps_Cons tracks_single tracks_write_backend_settings tracks_close
            tracks_YAML_OUT_STOP)
    then show ?thesis by (simp add: closing_doc_def strictly_def del: steps.simps)
  qed
  from tracks_steps_append [OF sk tracks_steps_append [OF fl en]]
  show ?thesis
    unfolding document_steps_def marked_document_def .
qed

lemma strictly_nth: "k < length es \<Longrightarrow> snd (strictly es ! k)"
  by (simp add: strictly_def)

lemma marked_backend_settings_strict:
  "passthrough (nm b) = [] \<Longrightarrow> marked_backend_settings b = strictly (backend_settings_doc b)"
  by (simp add: marked_backend_settings_def backend_settings_doc_def strictly_def)

lemma marked_access_points_strict:
  "\<forall>ap\<in>set aps. passthrough (nm (ap_backend_settings ap)) = [] \<Longrightarrow>
   concat (map (marked_access_point t) aps) = strictly (concat (map (access_point_doc t) aps))"
  by (induction aps)
     (simp_all add: marked_access_point_def access_point_doc_def marked_backend_settings_strict
        strictly_def)

lemma marked_document_strict:
  assumes "\<not> has_match d" and "passthrough (nm (backend_settings d)) = []"
    and "\<forall>ap\<in>set (access_points d). passthrough (nm (ap_backend_settings ap)) = []"
  shows "marked_document t d = strictly (document t d)"
proof -
  have "marked_document t d =
     strictly (skeleton_doc t d)
     @ (if type d = NETPLAN_DEF_TYPE_OTHER then []
        else strictly (wakeonlan_doc d @ modem_doc (modem_params d))
             @ (if type d = NETPLAN_DEF_TYPE_WIFI
                then strictly [SCALAR_PLAIN ''access-points'', MAPPING_START]
                     @ strictly (concat (map (access_point_doc t) (access_points d)))
                     @ strictly [MAPPING_END]
                else []))
     @ strictly (backend_settings_doc (backend_settings d))
     @ strictly closing_doc"
    using assms
    by (simp add: marked_document_def marked_backend_settings_strict
          marked_access_points_strict match_doc_def leniently_def)
  then show ?thesis
    using assms(1)
    by (simp add: document_def access_points_doc_def match_doc_def strictly_def)
qed

section \<open>The claims\<close>

text \<open>
  C1. The claim: a failed write of a passthrough key or value aborts the emission at
  that point and makes \<^verbatim>\<open>write_backend_settings\<close> return failure. The code: the failed
  write jumps to \<^verbatim>\<open>error: return;\<close> of the \<^verbatim>\<open>void\<close> callback, \<^verbatim>\<open>g_datalist_foreach\<close> goes on
  with the next pair, and \<^verbatim>\<open>write_backend_settings\<close> goes on after the loop. With the
  settings \<open>example_settings\<close> (a name and two passthrough pairs) and a writer whose call
  number 6, the write of the first passthrough key, fails and no other: the second pair
  is written, both mappings are closed and the result is \<open>True\<close>; the first pair is
  missing from the output. With a writer that fails from call 6 on, the callback is
  still run for the second pair (call 7) and the failure that is returned is the one
  of the closing of the mapping (call 8).
\<close>

theorem passthrough_failure_is_swallowed:
  "fst (write_backend_settings example_settings (example_world\<lparr>fails := (\<lambda>n. n = 6)\<rparr>))
   \<and> calls (snd (write_backend_settings example_settings
                   (example_world\<lparr>fails := (\<lambda>n. n = 6)\<rparr>))) = 11
   \<and> events (snd (write_backend_settings example_settings
                    (example_world\<lparr>fails := (\<lambda>n. n = 6)\<rparr>))) =
       [SCALAR_PLAIN ''networkmanager'', MAPPING_START,
        SCALAR_PLAIN ''name'', SCALAR_QUOTED ''Home'',
        SCALAR_PLAIN ''passthrough'', MAPPING_START,
        SCALAR_PLAIN ''proxy.method'', SCALAR_QUOTED ''none'',
        MAPPING_END, MAPPING_END]
   \<and> \<not> fst (write_backend_settings example_settings
                  (example_world\<lparr>fails := (\<lambda>n. 6 \<le> n)\<rparr>))
   \<and> calls (snd (write_backend_settings example_settings
                   (example_world\<lparr>fails := (\<lambda>n. 6 \<le> n)\<rparr>))) = 9"
  by code_simp

text \<open>
  C2. The claim: the render returns success or \<^verbatim>\<open>IoFailure\<close>, and every write failure
  reaches the caller as a failure instead of completing silently. It fails:
  \<^verbatim>\<open>write_netplan_conf\<close> returns \<^verbatim>\<open>void\<close>. With the definition \<open>example_ethernet\<close> and a
  writer whose call number 13, the write of the key \<^verbatim>\<open>match\<close>, fails, the render goes on
  (line 155 drops the result of \<^verbatim>\<open>write_match\<close>), writes the rest of the document and
  leaves by the normal exit, the match missing. With a writer whose every call fails,
  the render leaves by the error exit after one call; what it hands back is an empty
  document, a closed stream and no message.
\<close>

theorem render_completes_after_failed_match_write:
  "calls (write_netplan_conf example_tables example_ethernet (Some ''/tmp/root'')
            (example_world\<lparr>fails := (\<lambda>n. n = 13)\<rparr>)) = 36
   \<and> events (write_netplan_conf example_tables example_ethernet (Some ''/tmp/root'')
            (example_world\<lparr>fails := (\<lambda>n. n = 13)\<rparr>)) =
     [STREAM_START, DOCUMENT_START, MAPPING_START,
      SCALAR_PLAIN ''network'', MAPPING_START,
      SCALAR_PLAIN ''version'', SCALAR_PLAIN ''2'',
      SCALAR_PLAIN ''ethernets'', MAPPING_START,
      SCALAR_PLAIN ''eth0'', MAPPING_START,
      SCALAR_PLAIN ''renderer'', SCALAR_PLAIN ''NetworkManager'',
      SCALAR_PLAIN ''wakeonlan'', SCALAR_PLAIN ''true'',
      SCALAR_PLAIN ''apn'', SCALAR_QUOTED ''internet'',
      SCALAR_PLAIN ''networkmanager'', MAPPING_START,
      SCALAR_PLAIN ''name'', SCALAR_QUOTED ''Home'',
      SCALAR_PLAIN ''passthrough'', MAPPING_START,
      SCALAR_PLAIN ''ipv6.method'', SCALAR_QUOTED ''auto'',
      SCALAR_PLAIN ''proxy.method'', SCALAR_QUOTED ''none'',
      MAPPING_END, MAPPING_END,
      MAPPING_END, MAPPING_END, MAPPING_END,
      MAPPING_END, DOCUMENT_END, STREAM_END]
   \<and> fst (write_netplan_conf_try example_tables example_ethernet
            ''/tmp/root/etc/netplan/10-netplan-eth0.yaml''
            (example_world\<lparr>fails := (\<lambda>n. n = 13),
                           streams := [''/tmp/root/etc/netplan/10-netplan-eth0.yaml'']\<rparr>))
   \<and> calls (write_netplan_conf example_tables example_ethernet (Some ''/tmp/root'')
            (example_world\<lparr>fails := (\<lambda>n. True)\<rparr>)) = 1
   \<and> events (write_netplan_conf example_tables example_ethernet (Some ''/tmp/root'')
            (example_world\<lparr>fails := (\<lambda>n. True)\<rparr>)) = []
   \<and> streams (write_netplan_conf example_tables example_ethernet (Some ''/tmp/root'')
            (example_world\<lparr>fails := (\<lambda>n. True)\<rparr>)) = []
   \<and> warnings (write_netplan_conf example_tables example_ethernet (Some ''/tmp/root'')
            (example_world\<lparr>fails := (\<lambda>n. True)\<rparr>)) = []"
  by code_simp

text \<open>
  C2, as amended: the render returns no outcome. On a target that can be opened, in
  every run, whichever calls of the writer fail:
  \<^item> it leaves the emitter deleted and the stream closed;
  \<^item> it takes the error exit only right after a failed call of the writer: that call is
    the last one made, so nothing is written after the abort;
  \<^item> when it takes the normal exit, the document ends with the end of the stream;
  \<^item> when no write of the document fails, it takes the normal exit with the whole
    document written;
  \<^item> when the first write that fails (call \<open>k\<close>, counted from 0) is any write but those
    of \<^verbatim>\<open>write_match\<close> and of \<^verbatim>\<open>_passthrough_handler\<close> (\<open>marked_document\<close> marks it \<open>True\<close>),
    the render stops at that write, by the error exit, with the first \<open>k\<close> events of the
    document written and nothing else;
  \<^item> so for a definition without a match and without passthrough pairs the render stops
    at the first write that fails, wherever it is in the document; and for every
    definition it does when that write is one of the skeleton.
  What the render does after a failed write of \<^verbatim>\<open>write_match\<close> or of
  \<^verbatim>\<open>_passthrough_handler\<close>, and when \<^verbatim>\<open>fopen\<close> fails, is left open.
\<close>

theorem render_stops_at_failed_write:
  fixes t d rootdir s
  defines "p \<equiv> netplan_conf_path d rootdir"
  defines "ok \<equiv> fst (write_netplan_conf_try t d p (s\<lparr>streams := p # streams s\<rparr>))"
  defines "w \<equiv> write_netplan_conf t d rootdir s"
  assumes "creatable s p"
  shows "\<not> emitter_live w \<and> streams w = streams s \<and> crashed w = crashed s
    \<and> (\<not> ok \<longrightarrow> 0 < calls w \<and> fails s (calls w - 1))
    \<and> (ok \<longrightarrow> events w \<noteq> [] \<and> last (events w) = STREAM_END)
    \<and> ((\<forall>j<length (document t d). \<not> fails s j) \<longrightarrow> ok \<and> events w = document t d)
    \<and> (\<forall>k. k < length (marked_document t d) \<and> snd (marked_document t d ! k)
              \<and> fails s k \<and> (\<forall>j<k. \<not> fails s j)
          \<longrightarrow> \<not> ok \<and> calls w = Suc k \<and> events w = take k (document t d))
    \<and> (\<not> has_match d \<and> passthrough (nm (backend_settings d)) = []
         \<and> (\<forall>ap\<in>set (access_points d). passthrough (nm (ap_backend_settings ap)) = [])
          \<longrightarrow> (\<forall>k. k < length (document t d) \<and> fails s k \<and> (\<forall>j<k. \<not> fails s j)
                \<longrightarrow> \<not> ok \<and> calls w = Suc k \<and> events w = take k (document t d)))
    \<and> (\<forall>k. k < length (skeleton_doc t d) \<and> fails s k \<and> (\<forall>j<k. \<not> fails s j)
          \<longrightarrow> calls w = Suc k \<and> events w = take k (skeleton_doc t d) \<and> \<not> ok)"
proof -
  let ?s1 = "s\<lparr>streams := p # streams s\<rparr>"
  let ?s0 = "emitter_started p ?s1"
  let ?m = "marked_document t d"
  obtain s2 where r: "write_netplan_conf_try t d p ?s1 = (ok, s2)"
    unfolding ok_def by (cases "write_netplan_conf_try t d p ?s1") simp
  note k = orderlyD [OF orderly_write_netplan_conf_try r]
  have w: "w = (if ok then fclose p s2 else fclose p (yaml_emitter_delete s2))"
    using assms(4) r unfolding w_def p_def
    by (simp add: write_netplan_conf_def fopen_def)
  have live: "ok \<Longrightarrow> \<not> emitter_live s2 \<and> events s2 \<noteq> [] \<and> last (events s2) = STREAM_END"
    using write_netplan_conf_try_True [of t d p ?s1 s2] r by simp
  have 1: "\<not> emitter_live w" using live w by (simp add: fclose_def yaml_emitter_delete_def)
  have 2: "streams w = streams s" using k(2) w by (simp add: fclose_def yaml_emitter_delete_def)
  have 3: "crashed w = crashed s" using k(4) w by (simp add: fclose_def yaml_emitter_delete_def)
  have c: "calls w = calls s2" "events w = events s2"
    using w by (simp_all add: fclose_def yaml_emitter_delete_def)
  have 4: "\<not> ok \<longrightarrow> 0 < calls w \<and> fails s (calls w - 1)" using k(5) c by simp
  have 5: "ok \<longrightarrow> events w \<noteq> [] \<and> last (events w) = STREAM_END" using live c by simp
  have run: "steps (document_steps t d) ?s0 = (ok, s2)"
    using r by (simp only: write_netplan_conf_try_started)
  have s0: "calls ?s0 = 0" "events ?s0 = []" "fails ?s0 = fails s"
    by (simp_all add: emitter_started_def yaml_emitter_set_output_file_def
          yaml_emitter_initialize_def)
  have len: "length ?m = length (document t d)"
    using map_fst_marked_document [of t d] by (metis length_map)
  have 6: "(\<forall>j<length (document t d). \<not> fails s j) \<longrightarrow> ok \<and> events w = document t d"
  proof
    assume "\<forall>j<length (document t d). \<not> fails s j"
    then have "\<forall>j<length ?m. \<not> fails ?s0 (calls ?s0 + j)" by (simp add: s0 len)
    from tracks_ok [OF tracks_document_steps this]
    show "ok \<and> events w = document t d"
      by (simp add: run s0 c map_fst_marked_document)
  qed
  have 7: "\<forall>k. k < length ?m \<and> snd (?m ! k) \<and> fails s k \<and> (\<forall>j<k. \<not> fails s j)
          \<longrightarrow> \<not> ok \<and> calls w = Suc k \<and> events w = take k (document t d)"
  proof (intro allI impI)
    fix k assume a: "k < length ?m \<and> snd (?m ! k) \<and> fails s k \<and> (\<forall>j<k. \<not> fails s j)"
    then have "first_failure ?s0 k" by (simp add: first_failure_def s0)
    from tracks_abort [OF tracks_document_steps _ _ this, of t d] a
    show "\<not> ok \<and> calls w = Suc k \<and> events w = take k (document t d)"
      by (simp add: run s0 c map_fst_marked_document)
  qed
  have 8: "\<not> has_match d \<and> passthrough (nm (backend_settings d)) = []
         \<and> (\<forall>ap\<in>set (access_points d). passthrough (nm (ap_backend_settings ap)) = [])
          \<longrightarrow> (\<forall>k. k < length (document t d) \<and> fails s k \<and> (\<forall>j<k. \<not> fails s j)
                \<longrightarrow> \<not> ok \<and> calls w = Suc k \<and> events w = take k (document t d))"
  proof (intro allI impI)
    fix k
    assume a: "\<not> has_match d \<and> passthrough (nm (backend_settings d)) = []
         \<and> (\<forall>ap\<in>set (access_points d). passthrough (nm (ap_backend_settings ap)) = [])"
      and b: "k < length (document t d) \<and> fails s k \<and> (\<forall>j<k. \<not> fails s j)"
    from a have "?m = strictly (document t d)" by (intro marked_document_strict) simp_all
    with b have "k < length ?m" and "snd (?m ! k)" by (simp_all add: strictly_nth)
    with 7 b show "\<not> ok \<and> calls w = Suc k \<and> events w = take k (document t d)" by blast
  qed
  have 9: "\<forall>k. k < length (skeleton_doc t d) \<and> fails s k \<and> (\<forall>j<k. \<not> fails s j)
          \<longrightarrow> calls w = Suc k \<and> events w = take k (skeleton_doc t d) \<and> \<not> ok"
  proof (intro allI impI)
    fix k assume a: "k < length (skeleton_doc t d) \<and> fails s k \<and> (\<forall>j<k. \<not> fails s j)"
    then have "write_netplan_conf_try t d p ?s1 =
        (False, (emitter_started p ?s1)\<lparr>calls := Suc k, events := take k (skeleton_doc t d)\<rparr>)"
      by (intro abort_in_skeleton) simp_all
    with r have "\<not> ok"
      and "s2 = (emitter_started p ?s1)\<lparr>calls := Suc k, events := take k (skeleton_doc t d)\<rparr>"
      by simp_all
    then show "calls w = Suc k \<and> events w = take k (skeleton_doc t d) \<and> \<not> ok"
      using c by simp
  qed
  from 1 2 3 4 5 6 7 8 9 show ?thesis by blast
qed

theorem render_stops_at_failed_write_witness:
  "calls (write_netplan_conf example_tables example_ethernet (Some ''/tmp/root'')
            (example_world\<lparr>fails := (\<lambda>n. n = 20)\<rparr>)) = 21
   \<and> events (write_netplan_conf example_tables example_ethernet (Some ''/tmp/root'')
            (example_world\<lparr>fails := (\<lambda>n. n = 20)\<rparr>)) =
       [STREAM_START, DOCUMENT_START, MAPPING_START,
        SCALAR_PLAIN ''network'', MAPPING_START,
        SCALAR_PLAIN ''version'', SCALAR_PLAIN ''2'',
        SCALAR_PLAIN ''ethernets'', MAPPING_START,
        SCALAR_PLAIN ''eth0'', MAPPING_START,
        SCALAR_PLAIN ''renderer'', SCALAR_PLAIN ''NetworkManager'',
        SCALAR_PLAIN ''match'', MAPPING_START,
        SCALAR_PLAIN ''name'', SCALAR_QUOTED ''eth0'', MAPPING_END,
        SCALAR_PLAIN ''wakeonlan'', SCALAR_PLAIN ''true'']
   \<and> \<not> fst (write_netplan_conf_try example_tables example_ethernet
              (netplan_conf_path example_ethernet (Some ''/tmp/root''))
              (example_world\<lparr>fails := (\<lambda>n. n = 20),
                 streams := [netplan_conf_path example_ethernet (Some ''/tmp/root'')]\<rparr>))
   \<and> \<not> emitter_live (write_netplan_conf example_tables example_ethernet (Some ''/tmp/root'')
            (example_world\<lparr>fails := (\<lambda>n. n = 20)\<rparr>))
   \<and> streams (write_netplan_conf example_tables example_ethernet (Some ''/tmp/root'')
            (example_world\<lparr>fails := (\<lambda>n. n = 20)\<rparr>)) = []"
proof -
  let ?s = "example_world\<lparr>fails := (\<lambda>n. n = 20)\<rparr>"
  let ?d = "example_ethernet"
  let ?t = "example_tables"
  have c: "creatable ?s (netplan_conf_path ?d (Some ''/tmp/root''))"
    by (simp add: example_world_def)
  note T = render_stops_at_failed_write [OF c, of ?t]
  have m: "20 < length (marked_document ?t ?d)" "snd (marked_document ?t ?d ! 20)"
    by code_simp+
  have e: "take 20 (document ?t ?d) =
       [STREAM_START, DOCUMENT_START, MAPPING_START,
        SCALAR_PLAIN ''network'', MAPPING_START,
        SCALAR_PLAIN ''version'', SCALAR_PLAIN ''2'',
        SCALAR_PLAIN ''ethernets'', MAPPING_START,
        SCALAR_PLAIN ''eth0'', MAPPING_START,
        SCALAR_PLAIN ''renderer'', SCALAR_PLAIN ''NetworkManager'',
        SCALAR_PLAIN ''match'', MAPPING_START,
        SCALAR_PLAIN ''name'', SCALAR_QUOTED ''eth0'', MAPPING_END,
        SCALAR_PLAIN ''wakeonlan'', SCALAR_PLAIN ''true'']"
    by code_simp
  have st: "streams ?s = []" by (simp add: example_world_def)
  from T have 1: "\<not> emitter_live (write_netplan_conf ?t ?d (Some ''/tmp/root'') ?s)"
    and 2: "streams (write_netplan_conf ?t ?d (Some ''/tmp/root'') ?s) = streams ?s"
    and 7: "\<forall>k. k < length (marked_document ?t ?d) \<and> snd (marked_document ?t ?d ! k)
              \<and> fails ?s k \<and> (\<forall>j<k. \<not> fails ?s j)
          \<longrightarrow> \<not> fst (write_netplan_conf_try ?t ?d (netplan_conf_path ?d (Some ''/tmp/root''))
                   (?s\<lparr>streams := netplan_conf_path ?d (Some ''/tmp/root'') # streams ?s\<rparr>))
            \<and> calls (write_netplan_conf ?t ?d (Some ''/tmp/root'') ?s) = Suc k
            \<and> events (write_netplan_conf ?t ?d (Some ''/tmp/root'') ?s) = take k (document ?t ?d)"
    by blast+
  from 7 [rule_format, of 20] m e 1 2 st show ?thesis by simp
qed

text \<open>
  C3. A backend-settings record whose UUID, name and passthrough mapping are all absent
  (a \<^verbatim>\<open>NULL\<close> string, a \<^verbatim>\<open>NULL\<close> datalist: what the code tests)
  makes \<^verbatim>\<open>write_backend_settings\<close> write nothing at all, whatever the writer does (no
  call reaches it). Otherwise, with a writer that accepts every event, it writes
  exactly one \<^verbatim>\<open>networkmanager\<close> mapping: the key, the opening, then \<^verbatim>\<open>uuid\<close> as a plain
  scalar if present, \<^verbatim>\<open>name\<close> as a quoted scalar if present, the nested \<^verbatim>\<open>passthrough\<close>
  mapping if it is not empty, in this order, then the closing (\<open>backend_settings_doc\<close>).
\<close>

theorem write_backend_settings_nothing_or_one_mapping:
  "(uuid (nm b) = None \<and> name (nm b) = None \<and> passthrough (nm b) = []
      \<longrightarrow> write_backend_settings b s = (True, s) \<and> backend_settings_doc b = [])
   \<and> ((\<forall>n. \<not> fails s n)
      \<longrightarrow> write_backend_settings b s = (True, wrote (backend_settings_doc b) [] s))"
proof (intro conjI impI)
  assume "uuid (nm b) = None \<and> name (nm b) = None \<and> passthrough (nm b) = []"
  then show "write_backend_settings b s = (True, s)"
    by (simp add: write_backend_settings_def)
next
  assume "uuid (nm b) = None \<and> name (nm b) = None \<and> passthrough (nm b) = []"
  then show "backend_settings_doc b = []"
    by (simp add: backend_settings_doc_def)
next
  assume "\<forall>n. \<not> fails s n"
  then show "write_backend_settings b s = (True, wrote (backend_settings_doc b) [] s)"
    by (rule producesD [OF produces_write_backend_settings])
qed

theorem write_backend_settings_nothing_or_one_mapping_witness:
  "write_backend_settings no_settings (example_world\<lparr>fails := (\<lambda>n. True)\<rparr>)
     = (True, example_world\<lparr>fails := (\<lambda>n. True)\<rparr>)
   \<and> write_backend_settings example_settings example_world
     = (True, example_world\<lparr>calls := 12, events :=
          [SCALAR_PLAIN ''networkmanager'', MAPPING_START,
           SCALAR_PLAIN ''name'', SCALAR_QUOTED ''Home'',
           SCALAR_PLAIN ''passthrough'', MAPPING_START,
           SCALAR_PLAIN ''ipv6.method'', SCALAR_QUOTED ''auto'',
           SCALAR_PLAIN ''proxy.method'', SCALAR_QUOTED ''none'',
           MAPPING_END, MAPPING_END]\<rparr>)"
  using write_backend_settings_nothing_or_one_mapping
          [of no_settings "example_world\<lparr>fails := (\<lambda>n. True)\<rparr>"]
        write_backend_settings_nothing_or_one_mapping [of example_settings example_world]
  by (simp add: no_settings_def example_settings_def example_world_def backend_settings_doc_def
        passthrough_doc_def wrote_def)

text \<open>
  C4. The claim: the path is \<^verbatim>\<open><rootDirectory or system root>/etc/netplan/<filename>\<close>.
  The file name is as claimed (\<open>netplan_conf_filename\<close>), and so is the path for a
  root directory such as \<^verbatim>\<open>/tmp/root\<close>. Without a root directory the code passes the empty
  string to \<^verbatim>\<open>g_build_path\<close>, which skips empty elements: for every definition the path
  is \<^verbatim>\<open>etc/netplan/<filename>\<close>, relative to the working directory, and not
  \<^verbatim>\<open>/etc/netplan/<filename>\<close>.
\<close>

theorem null_rootdir_gives_relative_path:
  "netplan_conf_path d None = ''etc/netplan/'' @ netplan_conf_filename d
   \<and> netplan_conf_path d (Some ''/tmp/root'') = ''/tmp/root/etc/netplan/'' @ netplan_conf_filename d"
  by (cases "uuid (nm (backend_settings d))")
     (simp_all add: netplan_conf_path_def netplan_conf_filename_def g_build_path_def
        g_build_path_element_def G_DIR_SEPARATOR_def Let_def)

text \<open>
  C5. For a definition of device type \<^verbatim>\<open>other\<close>, rendered with a writer that accepts
  every event on a target that can be opened, the document is the skeleton (stream,
  document and root mapping, \<^verbatim>\<open>network\<close>, \<^verbatim>\<open>version\<close>, the device-type keyword, the
  identifier, \<^verbatim>\<open>renderer\<close>), then the \<^verbatim>\<open>networkmanager\<close> mapping of its backend settings
  if there is one, then the closing events, and nothing else: no match, wake-on-lan,
  modem or access-point key, whatever the definition holds in these fields. No
  diagnostic is logged.
\<close>

theorem other_renders_skeleton_and_settings_only:
  assumes "type d = NETPLAN_DEF_TYPE_OTHER"
    and "\<forall>n. \<not> fails s n"
    and "creatable s (netplan_conf_path d rootdir)"
  shows "events (write_netplan_conf t d rootdir s) =
           skeleton_doc t d @ backend_settings_doc (backend_settings d) @ closing_doc
         \<and> warnings (write_netplan_conf t d rootdir s) = warnings s"
  using assms(1)
  by (simp add: write_netplan_conf_ok [OF assms(2,3)] rendered_events rendered_warnings
        document_def document_warnings_def)

theorem other_renders_skeleton_and_settings_only_witness:
  "events (write_netplan_conf example_tables example_other (Some ''/tmp/root'') example_world) =
     [STREAM_START, DOCUMENT_START, MAPPING_START,
      SCALAR_PLAIN ''network'', MAPPING_START,
      SCALAR_PLAIN ''version'', SCALAR_PLAIN ''2'',
      SCALAR_PLAIN ''others'', MAPPING_START,
      SCALAR_PLAIN ''vpn0'', MAPPING_START,
      SCALAR_PLAIN ''renderer'', SCALAR_PLAIN ''NetworkManager'',
      SCALAR_PLAIN ''networkmanager'', MAPPING_START,
      SCALAR_PLAIN ''uuid'', SCALAR_PLAIN ''abc-123'',
      MAPPING_END,
      MAPPING_END, MAPPING_END, MAPPING_END,
      MAPPING_END, DOCUMENT_END, STREAM_END]"
  using other_renders_skeleton_and_settings_only
          [of example_other example_world "Some ''/tmp/root''" example_tables]
  by (simp add: example_other_def example_world_def example_tables_def skeleton_doc_def
        backend_settings_doc_def closing_doc_def)

text \<open>
  C6. For a definition whose device type is not \<^verbatim>\<open>other\<close>, rendered with a writer that
  accepts every event on a target that can be opened, the document is the skeleton,
  then the match mapping (only if a match is present), \<^verbatim>\<open>wakeonlan: true\<close> (only if the
  flag is set), the modem parameters (each present field), the access-points mapping
  (only if the device type is wifi), the backend settings, then three mapping ends,
  and then the end of the root mapping, of the document and of the stream; the emitter
  is deleted afterwards. The three mapping ends close the mapping of the identifier,
  then that of the device type, then that of \<^verbatim>\<open>network\<close>: the reverse of the order in
  which the skeleton opened them; the root mapping is closed last.
\<close>

theorem fields_in_fixed_order:
  assumes "type d \<noteq> NETPLAN_DEF_TYPE_OTHER"
    and "\<forall>n. \<not> fails s n"
    and "creatable s (netplan_conf_path d rootdir)"
  shows "events (write_netplan_conf t d rootdir s) =
           skeleton_doc t d
           @ match_doc d
           @ wakeonlan_doc d
           @ modem_doc (modem_params d)
           @ (if type d = NETPLAN_DEF_TYPE_WIFI then access_points_doc t (access_points d) else [])
           @ backend_settings_doc (backend_settings d)
           @ [MAPPING_END, MAPPING_END, MAPPING_END]
           @ [MAPPING_END, DOCUMENT_END, STREAM_END]
         \<and> \<not> emitter_live (write_netplan_conf t d rootdir s)
         \<and> (\<exists>inner. closed_keys (events (write_netplan_conf t d rootdir s)) [] [] =
               inner @ [id' d, netplan_def_type_to_str t (type d), ''network'', []])"
proof -
  let ?mid = "match_doc d @ wakeonlan_doc d @ modem_doc (modem_params d)
     @ (if type d = NETPLAN_DEF_TYPE_WIFI then access_points_doc t (access_points d) else [])
     @ backend_settings_doc (backend_settings d)"
  have e: "events (write_netplan_conf t d rootdir s) = skeleton_doc t d @ ?mid @ closing_doc"
    using assms(1)
    by (simp add: write_netplan_conf_ok [OF assms(2,3)] rendered_events document_def)
  have "\<exists>inner. closed_keys (skeleton_doc t d @ ?mid @ closing_doc) [] [] =
      inner @ [id' d, netplan_def_type_to_str t (type d), ''network'', []]"
    by (rule closing_order [OF balanced_fields])
  then show ?thesis
    using e by (simp add: write_netplan_conf_ok [OF assms(2,3)] rendered_not_live closing_doc_def)
qed

theorem fields_in_fixed_order_witness:
  "events (write_netplan_conf example_tables example_ethernet (Some ''/tmp/root'') example_world) =
     [STREAM_START, DOCUMENT_START, MAPPING_START,
      SCALAR_PLAIN ''network'', MAPPING_START,
      SCALAR_PLAIN ''version'', SCALAR_PLAIN ''2'',
      SCALAR_PLAIN ''ethernets'', MAPPING_START,
      SCALAR_PLAIN ''eth0'', MAPPING_START,
      SCALAR_PLAIN ''renderer'', SCALAR_PLAIN ''NetworkManager'',
      SCALAR_PLAIN ''match'', MAPPING_START,
      SCALAR_PLAIN ''name'', SCALAR_QUOTED ''eth0'', MAPPING_END,
      SCALAR_PLAIN ''wakeonlan'', SCALAR_PLAIN ''true'',
      SCALAR_PLAIN ''apn'', SCALAR_QUOTED ''internet'',
      SCALAR_PLAIN ''networkmanager'', MAPPING_START,
      SCALAR_PLAIN ''name'', SCALAR_QUOTED ''Home'',
      SCALAR_PLAIN ''passthrough'', MAPPING_START,
      SCALAR_PLAIN ''ipv6.method'', SCALAR_QUOTED ''auto'',
      SCALAR_PLAIN ''proxy.method'', SCALAR_QUOTED ''none'',
      MAPPING_END, MAPPING_END,
      MAPPING_END, MAPPING_END, MAPPING_END,
      MAPPING_END, DOCUMENT_END, STREAM_END]
   \<and> closed_keys
        (events (write_netplan_conf example_tables example_ethernet (Some ''/tmp/root'')
                   example_world)) [] [] =
     [''match'', ''passthrough'', ''networkmanager'', ''eth0'', ''ethernets'', ''network'', []]"
proof -
  have "events (write_netplan_conf example_tables example_ethernet (Some ''/tmp/root'')
                  example_world) =
     [STREAM_START, DOCUMENT_START, MAPPING_START,
      SCALAR_PLAIN ''network'', MAPPING_START,
      SCALAR_PLAIN ''version'', SCALAR_PLAIN ''2'',
      SCALAR_PLAIN ''ethernets'', MAPPING_START,
      SCALAR_PLAIN ''eth0'', MAPPING_START,
      SCALAR_PLAIN ''renderer'', SCALAR_PLAIN ''NetworkManager'',
      SCALAR_PLAIN ''match'', MAPPING_START,
      SCALAR_PLAIN ''name'', SCALAR_QUOTED ''eth0'', MAPPING_END,
      SCALAR_PLAIN ''wakeonlan'', SCALAR_PLAIN ''true'',
      SCALAR_PLAIN ''apn'', SCALAR_QUOTED ''internet'',
      SCALAR_PLAIN ''networkmanager'', MAPPING_START,
      SCALAR_PLAIN ''name'', SCALAR_QUOTED ''Home'',
      SCALAR_PLAIN ''passthrough'', MAPPING_START,
      SCALAR_PLAIN ''ipv6.method'', SCALAR_QUOTED ''auto'',
      SCALAR_PLAIN ''proxy.method'', SCALAR_QUOTED ''none'',
      MAPPING_END, MAPPING_END,
      MAPPING_END, MAPPING_END, MAPPING_END,
      MAPPING_END, DOCUMENT_END, STREAM_END]"
    using fields_in_fixed_order
            [of example_ethernet example_world "Some ''/tmp/root''" example_tables]
    by (simp add: example_ethernet_def example_world_def example_tables_def
          example_settings_def no_modem_params_def skeleton_doc_def match_doc_def
          wakeonlan_doc_def modem_doc_def string_doc_def backend_settings_doc_def
          passthrough_doc_def)
  then show ?thesis by simp
qed

text \<open>
  C7. With a writer that accepts every event, iterating the passthrough mapping with
  \<^verbatim>\<open>_passthrough_handler\<close> writes, for each pair in the order of the iteration, the key
  as a plain scalar and the value as a quoted scalar, and nothing else; reading the
  written block back gives the pairs of the mapping, each once; and for a non-empty
  mapping \<^verbatim>\<open>write_backend_settings\<close> puts this block into the \<^verbatim>\<open>passthrough\<close> mapping of
  the \<^verbatim>\<open>networkmanager\<close> mapping. The order of the iteration is arbitrary: \<open>pt\<close> is any
  list.
\<close>

theorem passthrough_pairs_each_once:
  assumes "\<forall>n. \<not> fails s n"
  shows "g_datalist_foreach pt passthrough_handler s
           = wrote (concat (map (\<lambda>(k, v). [SCALAR_PLAIN k, SCALAR_QUOTED v]) pt)) [] s
         \<and> scalar_pairs (drop (length (events s))
                (events (g_datalist_foreach pt passthrough_handler s))) = Some pt
         \<and> (passthrough (nm b) = pt \<and> pt \<noteq> [] \<longrightarrow>
              events (snd (write_backend_settings b s)) =
                events s
                @ [SCALAR_PLAIN ''networkmanager'', MAPPING_START]
                @ (case uuid (nm b) of None \<Rightarrow> []
                   | Some u \<Rightarrow> [SCALAR_PLAIN ''uuid'', SCALAR_PLAIN u])
                @ (case name (nm b) of None \<Rightarrow> []
                   | Some n \<Rightarrow> [SCALAR_PLAIN ''name'', SCALAR_QUOTED n])
                @ [SCALAR_PLAIN ''passthrough'', MAPPING_START]
                @ concat (map (\<lambda>(k, v). [SCALAR_PLAIN k, SCALAR_QUOTED v]) pt)
                @ [MAPPING_END, MAPPING_END])"
proof (intro conjI impI)
  show 1: "g_datalist_foreach pt passthrough_handler s
      = wrote (concat (map (\<lambda>(k, v). [SCALAR_PLAIN k, SCALAR_QUOTED v]) pt)) [] s"
    using foreach_ok [OF assms, of pt] by (simp add: passthrough_doc_def)
  show "scalar_pairs (drop (length (events s))
          (events (g_datalist_foreach pt passthrough_handler s))) = Some pt"
    using scalar_pairs_passthrough_doc [of pt]
    by (simp add: 1 wrote_def passthrough_doc_def)
next
  assume "passthrough (nm b) = pt \<and> pt \<noteq> []"
  then show "events (snd (write_backend_settings b s)) =
      events s
      @ [SCALAR_PLAIN ''networkmanager'', MAPPING_START]
      @ (case uuid (nm b) of None \<Rightarrow> [] | Some u \<Rightarrow> [SCALAR_PLAIN ''uuid'', SCALAR_PLAIN u])
      @ (case name (nm b) of None \<Rightarrow> [] | Some n \<Rightarrow> [SCALAR_PLAIN ''name'', SCALAR_QUOTED n])
      @ [SCALAR_PLAIN ''passthrough'', MAPPING_START]
      @ concat (map (\<lambda>(k, v). [SCALAR_PLAIN k, SCALAR_QUOTED v]) pt)
      @ [MAPPING_END, MAPPING_END]"
    using producesD [OF produces_write_backend_settings assms, of b]
    by (auto simp: backend_settings_doc_def passthrough_doc_def wrote_def)
qed

theorem passthrough_pairs_each_once_witness:
  "events (g_datalist_foreach [(''ipv6.method'', ''auto''), (''proxy.method'', ''none'')]
             passthrough_handler example_world) =
     [SCALAR_PLAIN ''ipv6.method'', SCALAR_QUOTED ''auto'',
      SCALAR_PLAIN ''proxy.method'', SCALAR_QUOTED ''none'']
   \<and> events (snd (write_backend_settings example_settings example_world)) =
     [SCALAR_PLAIN ''networkmanager'', MAPPING_START,
      SCALAR_PLAIN ''name'', SCALAR_QUOTED ''Home'',
      SCALAR_PLAIN ''passthrough'', MAPPING_START,
      SCALAR_PLAIN ''ipv6.method'', SCALAR_QUOTED ''auto'',
      SCALAR_PLAIN ''proxy.method'', SCALAR_QUOTED ''none'',
      MAPPING_END, MAPPING_END]"
  using passthrough_pairs_each_once
          [of example_world "[(''ipv6.method'', ''auto''), (''proxy.method'', ''none'')]"
              example_settings]
  by (simp add: example_world_def example_settings_def wrote_def)

text \<open>
  C8. For an access point whose wireless mode is the unsupported variant, with a writer
  that accepts every event, the loop body of \<^verbatim>\<open>write_access_points\<close> writes the mapping
  of the access point with \<^verbatim>\<open>mode: infrastructure\<close> (the table entry of the unsupported
  variant is not used), logs exactly one warning, naming the definition and the SSID,
  and goes on (it returns \<open>True\<close>). The render of a wifi definition logs one warning for
  each access point of unsupported mode, none for the others, and writes the whole
  document.
\<close>

theorem unsupported_mode_falls_back_with_one_warning:
  assumes "mode ap = NETPLAN_WIFI_MODE_OTHER"
    and "\<forall>n. \<not> fails s n"
  shows "write_access_point t d ap s =
           (True,
            wrote
              ([SCALAR_QUOTED (ssid ap), MAPPING_START]
               @ (if hidden ap then [SCALAR_PLAIN ''hidden'', SCALAR_PLAIN ''true''] else [])
               @ [SCALAR_PLAIN ''mode'', SCALAR_PLAIN ''infrastructure'']
               @ backend_settings_doc (ap_backend_settings ap)
               @ [MAPPING_END])
              [unsupported_mode_warning (id' d) (ssid ap)] s)
         \<and> (type d = NETPLAN_DEF_TYPE_WIFI \<and> creatable s (netplan_conf_path d rootdir) \<longrightarrow>
              warnings (write_netplan_conf t d rootdir s) =
                warnings s
                @ map (\<lambda>a. unsupported_mode_warning (id' d) (ssid a))
                    (filter (\<lambda>a. mode a = NETPLAN_WIFI_MODE_OTHER) (access_points d))
              \<and> events (write_netplan_conf t d rootdir s) = document t d)"
proof (intro conjI impI)
  show "write_access_point t d ap s =
      (True,
       wrote
         ([SCALAR_QUOTED (ssid ap), MAPPING_START]
          @ (if hidden ap then [SCALAR_PLAIN ''hidden'', SCALAR_PLAIN ''true''] else [])
          @ [SCALAR_PLAIN ''mode'', SCALAR_PLAIN ''infrastructure'']
          @ backend_settings_doc (ap_backend_settings ap)
          @ [MAPPING_END])
         [unsupported_mode_warning (id' d) (ssid ap)] s)"
    using producesD [OF produces_write_access_point assms(2), of t d ap] assms(1)
    by (simp add: access_point_doc_def access_point_warnings_def)
next
  assume a: "type d = NETPLAN_DEF_TYPE_WIFI \<and> creatable s (netplan_conf_path d rootdir)"
  have w: "concat (map (access_point_warnings d) aps) =
      map (\<lambda>a. unsupported_mode_warning (id' d) (ssid a))
        (filter (\<lambda>a. mode a = NETPLAN_WIFI_MODE_OTHER) aps)" for aps
    by (induction aps) (simp_all add: access_point_warnings_def)
  from a have c: "creatable s (netplan_conf_path d rootdir)" by simp
  show "warnings (write_netplan_conf t d rootdir s) =
      warnings s
      @ map (\<lambda>a. unsupported_mode_warning (id' d) (ssid a))
          (filter (\<lambda>a. mode a = NETPLAN_WIFI_MODE_OTHER) (access_points d))"
    using a by (simp add: write_netplan_conf_ok [OF assms(2) c] rendered_warnings
        document_warnings_def w)
  show "events (write_netplan_conf t d rootdir s) = document t d"
    by (simp add: write_netplan_conf_ok [OF assms(2) c] rendered_events)
qed

theorem unsupported_mode_falls_back_with_one_warning_witness:
  "write_access_point example_tables example_wifi example_access_point example_world =
     (True, example_world\<lparr>calls := 7,
        events := [SCALAR_QUOTED ''mesh'', MAPPING_START,
                   SCALAR_PLAIN ''hidden'', SCALAR_PLAIN ''true'',
                   SCALAR_PLAIN ''mode'', SCALAR_PLAIN ''infrastructure'',
                   MAPPING_END],
        warnings := [unsupported_mode_warning ''wlan0'' ''mesh'']\<rparr>)
   \<and> warnings (write_netplan_conf example_tables example_wifi (Some ''/tmp/root'') example_world)
        = [unsupported_mode_warning ''wlan0'' ''mesh'']
   \<and> events (write_netplan_conf example_tables example_wifi (Some ''/tmp/root'') example_world) =
     [STREAM_START, DOCUMENT_START, MAPPING_START,
      SCALAR_PLAIN ''network'', MAPPING_START,
      SCALAR_PLAIN ''version'', SCALAR_PLAIN ''2'',
      SCALAR_PLAIN ''wifis'', MAPPING_START,
      SCALAR_PLAIN ''wlan0'', MAPPING_START,
      SCALAR_PLAIN ''renderer'', SCALAR_PLAIN ''NetworkManager'',
      SCALAR_PLAIN ''access-points'', MAPPING_START,
      SCALAR_QUOTED ''home'', MAPPING_START,
      SCALAR_PLAIN ''mode'', SCALAR_PLAIN ''ap'', MAPPING_END,
      SCALAR_QUOTED ''mesh'', MAPPING_START,
      SCALAR_PLAIN ''hidden'', SCALAR_PLAIN ''true'',
      SCALAR_PLAIN ''mode'', SCALAR_PLAIN ''infrastructure'', MAPPING_END,
      MAPPING_END,
      MAPPING_END, MAPPING_END, MAPPING_END,
      MAPPING_END, DOCUMENT_END, STREAM_END]"
  using unsupported_mode_falls_back_with_one_warning
          [of example_access_point example_world example_tables example_wifi
              "Some ''/tmp/root''"]
  by (simp add: example_access_point_def example_wifi_def example_world_def example_tables_def
        no_settings_def no_modem_params_def wrote_def backend_settings_doc_def document_def
        skeleton_doc_def match_doc_def wakeonlan_doc_def modem_doc_def string_doc_def
        access_points_doc_def access_point_doc_def closing_doc_def)

text \<open>
  C9. The claim: the modem keys appear only for definitions of device type modem. It
  fails: a bridge whose modem parameters \<^verbatim>\<open>auto_config\<close> and \<^verbatim>\<open>pin\<close> are set is rendered
  with the keys \<^verbatim>\<open>auto-config\<close> and \<^verbatim>\<open>pin\<close>.
\<close>

theorem modem_keys_in_a_bridge:
  "events (write_netplan_conf example_tables example_bridge (Some ''/tmp/root'') example_world) =
     [STREAM_START, DOCUMENT_START, MAPPING_START,
      SCALAR_PLAIN ''network'', MAPPING_START,
      SCALAR_PLAIN ''version'', SCALAR_PLAIN ''2'',
      SCALAR_PLAIN ''bridges'', MAPPING_START,
      SCALAR_PLAIN ''br0'', MAPPING_START,
      SCALAR_PLAIN ''renderer'', SCALAR_PLAIN ''networkd'',
      SCALAR_PLAIN ''auto-config'', SCALAR_PLAIN ''true'',
      SCALAR_PLAIN ''pin'', SCALAR_QUOTED ''1234'',
      MAPPING_END, MAPPING_END, MAPPING_END,
      MAPPING_END, DOCUMENT_END, STREAM_END]"
  by code_simp

text \<open>
  C9, as amended: with a writer that accepts every event on a target that can be
  opened, the modem keys appear for every definition whose device type is not
  \<^verbatim>\<open>other\<close>, modem or not: one key for each modem parameter that is set, after the
  wake-on-lan flag and before the access points (\<open>modem_doc\<close>). For a definition of
  device type \<^verbatim>\<open>other\<close> none of them appears.
\<close>

theorem modem_keys_whenever_set_unless_other:
  assumes "\<forall>n. \<not> fails s n" and "creatable s (netplan_conf_path d rootdir)"
  shows "events (write_netplan_conf t d rootdir s) =
     (if type d = NETPLAN_DEF_TYPE_OTHER then
        skeleton_doc t d @ backend_settings_doc (backend_settings d) @ closing_doc
      else
        skeleton_doc t d @ match_doc d @ wakeonlan_doc d
        @ modem_doc (modem_params d)
        @ (if type d = NETPLAN_DEF_TYPE_WIFI then access_points_doc t (access_points d) else [])
        @ backend_settings_doc (backend_settings d) @ closing_doc)"
  by (simp add: write_netplan_conf_ok [OF assms] rendered_events document_def)

theorem modem_keys_whenever_set_unless_other_witness:
  "events (write_netplan_conf example_tables (example_bridge\<lparr>type := NETPLAN_DEF_TYPE_MODEM\<rparr>)
             None example_world) =
     [STREAM_START, DOCUMENT_START, MAPPING_START,
      SCALAR_PLAIN ''network'', MAPPING_START,
      SCALAR_PLAIN ''version'', SCALAR_PLAIN ''2'',
      SCALAR_PLAIN ''modems'', MAPPING_START,
      SCALAR_PLAIN ''br0'', MAPPING_START,
      SCALAR_PLAIN ''renderer'', SCALAR_PLAIN ''networkd'',
      SCALAR_PLAIN ''auto-config'', SCALAR_PLAIN ''true'',
      SCALAR_PLAIN ''pin'', SCALAR_QUOTED ''1234'',
      MAPPING_END, MAPPING_END, MAPPING_END,
      MAPPING_END, DOCUMENT_END, STREAM_END]
   \<and> events (write_netplan_conf example_tables (example_bridge\<lparr>type := NETPLAN_DEF_TYPE_OTHER\<rparr>)
             None example_world) =
     [STREAM_START, DOCUMENT_START, MAPPING_START,
      SCALAR_PLAIN ''network'', MAPPING_START,
      SCALAR_PLAIN ''version'', SCALAR_PLAIN ''2'',
      SCALAR_PLAIN ''others'', MAPPING_START,
      SCALAR_PLAIN ''br0'', MAPPING_START,
      SCALAR_PLAIN ''renderer'', SCALAR_PLAIN ''networkd'',
      MAPPING_END, MAPPING_END, MAPPING_END,
      MAPPING_END, DOCUMENT_END, STREAM_END]"
  using modem_keys_whenever_set_unless_other
          [of example_world "example_bridge\<lparr>type := NETPLAN_DEF_TYPE_MODEM\<rparr>" None
              example_tables]
        modem_keys_whenever_set_unless_other
          [of example_world "example_bridge\<lparr>type := NETPLAN_DEF_TYPE_OTHER\<rparr>" None
              example_tables]
  by (simp add: example_bridge_def example_world_def example_tables_def no_settings_def
        no_modem_params_def skeleton_doc_def match_doc_def wakeonlan_doc_def modem_doc_def
        string_doc_def backend_settings_doc_def closing_doc_def)

text \<open>
  C10. In every run of the render, whichever calls of the writer fail, the streams that
  are open afterwards are those that were open before: the stream that \<^verbatim>\<open>fopen\<close> has
  opened is held while the document is written and is closed on the normal exit and
  on the error exit. (When \<^verbatim>\<open>fopen\<close> fails there is no stream to close.)
\<close>

theorem output_stream_closed_on_every_exit:
  "streams (write_netplan_conf t d rootdir s) = streams s
   \<and> (case fopen (netplan_conf_path d rootdir) s of
        (None, s1) \<Rightarrow> streams s1 = streams s
      | (Some output, s1) \<Rightarrow>
          streams s1 = output # streams s
          \<and> streams (snd (write_netplan_conf_try t d output s1)) = output # streams s)"
proof (cases "creatable s (netplan_conf_path d rootdir)")
  case True
  let ?p = "netplan_conf_path d rootdir"
  let ?s1 = "s\<lparr>streams := ?p # streams s\<rparr>"
  obtain ok s2 where r: "write_netplan_conf_try t d ?p ?s1 = (ok, s2)"
    by (cases "write_netplan_conf_try t d ?p ?s1")
  have "streams s2 = ?p # streams s"
    using try_streams [of t d ?p ?s1] r by simp
  then show ?thesis
    using True r
    by (simp add: write_netplan_conf_def fopen_def fclose_def yaml_emitter_delete_def)
next
  case False
  then show ?thesis by (simp add: write_netplan_conf_def fopen_def)
qed

end
